theory Spec2Isabelle
  imports Main
begin

section \<open>JavaScript strings and numbers\<close>

text \<open>
  Strings are modelled as \<^typ>\<open>string\<close>. \<open>String.prototype.includes\<close>, \<open>startsWith\<close> and
  the decimal rendering of a non-negative integer inside a template literal are written
  out, since the retry layer classifies failures by searching their message text.
\<close>

primrec js_startsWith :: "string \<Rightarrow> string \<Rightarrow> bool" where
  "js_startsWith s [] = True"
| "js_startsWith s (c # cs) = (case s of [] \<Rightarrow> False | d # ds \<Rightarrow> d = c \<and> js_startsWith ds cs)"

primrec js_includes :: "string \<Rightarrow> string \<Rightarrow> bool" where
  "js_includes [] sub = (sub = [])"
| "js_includes (c # cs) sub = (js_startsWith (c # cs) sub \<or> js_includes cs sub)"

definition digit_char :: "nat \<Rightarrow> char" where
  "digit_char d = ''0123456789'' ! (d mod 10)"

function show_nat :: "nat \<Rightarrow> string" where
  "show_nat n = (if n < 10 then [digit_char n] else show_nat (n div 10) @ [digit_char (n mod 10)])"
  by pat_completeness auto
termination
  by (relation "measure id") auto

declare show_nat.simps [simp del]

text \<open>
  \<open>`${timeout / 1000}`\<close> for a timeout given in whole milliseconds: the integer part,
  then the fraction without trailing zeros when there is one. This is the text JavaScript
  prints as long as the quotient, a double, determines all three decimals, which is the
  case for every delay a timer accepts (below \<open>2 ^ 31\<close> ms); the properties below that
  mention the text of a timeout are stated for that range.
\<close>

definition show_millis_as_seconds :: "nat \<Rightarrow> string" where
  "show_millis_as_seconds t =
     (let whole = show_nat (t div 1000); r = t mod 1000
      in if r = 0 then whole
         else if r mod 100 = 0 then whole @ ''.'' @ show_nat (r div 100)
         else if r mod 10 = 0 then whole @ ''.'' @ [digit_char (r div 100), digit_char (r div 10 mod 10)]
         else whole @ ''.'' @ [digit_char (r div 100), digit_char (r div 10 mod 10), digit_char (r mod 10)])"

section \<open>Thrown values\<close>

text \<open>
  What a rejected promise carries: an instance of the service's own \<open>FetchError\<close> class
  (message and HTTP status), a \<open>SyntaxError\<close>, any other \<open>Error\<close> instance (message), or
  a value that is not an \<open>Error\<close>, represented by the text \<open>JSON.stringify\<close> gives for it.
\<close>

datatype thrown =
    FetchError string nat
  | SyntaxError string
  | Error string
  | Value string

text \<open>\<open>error instanceof Error ? error.message : JSON.stringify(error)\<close>\<close>

fun errorMessage :: "thrown \<Rightarrow> string" where
  "errorMessage (FetchError m st) = m"
| "errorMessage (SyntaxError m) = m"
| "errorMessage (Error m) = m"
| "errorMessage (Value js) = js"

section \<open>fetchWithTimeout\<close>

text \<open>
  The outcome of the underlying \<open>fetch\<close> under the abort controller: a response, an abort
  caused by the timer (a \<open>DOMException\<close> named \<open>AbortError\<close>), or any other rejection.
\<close>

datatype 'r fetch_outcome =
    Responded 'r
  | AbortError
  | Rejected thrown

fun fetchWithTimeout :: "nat \<Rightarrow> 'r fetch_outcome \<Rightarrow> thrown + 'r" where
  "fetchWithTimeout timeout (Responded response) = Inr response"
| "fetchWithTimeout timeout AbortError =
     Inl (Error (''Request timed out after '' @ show_millis_as_seconds timeout @ '' seconds.''))"
| "fetchWithTimeout timeout (Rejected error) = Inl error"

section \<open>retryableAIOperation\<close>

text \<open>
  The observable behaviour of one call of the retrier is the sequence of its awaits:
  \<open>Invoke i\<close> is the \<open>i\<close>-th invocation of \<open>apiCall\<close> (counted from 0), \<open>Wait ms\<close> is
  \<open>await delay(ms)\<close>. The operation is effectful, so its outcome is a function of the
  invocation index.
\<close>

datatype event = Invoke nat | Wait nat

definition isRateLimitError :: "thrown \<Rightarrow> bool" where
  "isRateLimitError error =
     ((case error of FetchError m st \<Rightarrow> st = 429 | _ \<Rightarrow> False)
      \<or> js_includes (errorMessage error) ''429''
      \<or> js_includes (errorMessage error) ''RESOURCE_EXHAUSTED'')"

definition exhaustedError :: "nat \<Rightarrow> thrown option \<Rightarrow> thrown" where
  "exhaustedError retries lastError =
     Error (''AI request failed after '' @ show_nat retries @ '' attempts. Last error: ''
            @ (case lastError of None \<Rightarrow> ''undefined'' | Some e \<Rightarrow> errorMessage e))"

function retry_loop ::
  "(nat \<Rightarrow> thrown + 'a) \<Rightarrow> nat \<Rightarrow> nat \<Rightarrow> nat \<Rightarrow> thrown option \<Rightarrow> (thrown + 'a) \<times> event list"
where
  "retry_loop apiCall retries initialDelay i lastError =
     (if i < retries then
        (case apiCall i of
           Inr v \<Rightarrow> (Inr v, [Invoke i])
         | Inl error \<Rightarrow>
             if isRateLimitError error then
               (let waitTime = initialDelay * 2 ^ i;
                    rest = retry_loop apiCall retries initialDelay (i + 1) (Some error)
                in (fst rest, Invoke i # Wait waitTime # snd rest))
             else (Inl error, [Invoke i]))
      else (Inl (exhaustedError retries lastError), []))"
  by pat_completeness auto
termination
  by (relation "measure (\<lambda>(apiCall, retries, initialDelay, i, lastError). retries - i)") auto

declare retry_loop.simps [simp del]

definition retryableAIOperation ::
  "(nat \<Rightarrow> thrown + 'a) \<Rightarrow> nat \<Rightarrow> nat \<Rightarrow> (thrown + 'a) \<times> event list"
where
  "retryableAIOperation apiCall retries initialDelay = retry_loop apiCall retries initialDelay 0 None"

text \<open>Readings of a trace.\<close>

fun invocations :: "event list \<Rightarrow> nat" where
  "invocations [] = 0"
| "invocations (Invoke i # t) = Suc (invocations t)"
| "invocations (Wait ms # t) = invocations t"

fun waits :: "event list \<Rightarrow> nat list" where
  "waits [] = []"
| "waits (Invoke i # t) = waits t"
| "waits (Wait ms # t) = ms # waits t"

text \<open>The trace of \<open>k\<close> failed attempts starting at attempt \<open>i\<close>, each followed by its backoff.\<close>

fun backoff :: "nat \<Rightarrow> nat \<Rightarrow> nat \<Rightarrow> event list" where
  "backoff initialDelay i 0 = []"
| "backoff initialDelay i (Suc k) = Invoke i # Wait (initialDelay * 2 ^ i) # backoff initialDelay (Suc i) k"

text \<open>
  Sample operations: one that always times out, one throttled twice, one throttled once
  and timing out afterwards, one throttled forever.
\<close>

definition timing_out :: "nat \<Rightarrow> nat \<Rightarrow> thrown + string" where
  "timing_out timeout i = fetchWithTimeout timeout AbortError"

definition throttled_twice :: "nat \<Rightarrow> thrown + string" where
  "throttled_twice i =
     (if i < 2 then Inl (FetchError ''API request failed with status 429'' 429) else Inr ''1'')"

definition throttled_then_timeout :: "nat \<Rightarrow> thrown + string" where
  "throttled_then_timeout i =
     (if i = 0 then Inl (FetchError ''API request failed with status 429'' 429)
      else fetchWithTimeout 90000 AbortError)"

definition always_exhausted :: "nat \<Rightarrow> thrown + string" where
  "always_exhausted i = Inl (Error ''RESOURCE_EXHAUSTED'')"

section \<open>The scheduler of ResultsStep\<close>

text \<open>
  The scheduler lives in three refs: \<open>jobQueueRef\<close>, \<open>activeCountRef\<close> and
  \<open>isProcessingRef\<close>. The model adds one ghost field, \<open>running\<close>: the jobs whose
  \<open>processJob\<close> promise has been created and whose \<open>finally\<close> callback has not run yet,
  in the order they were started. The code never reads it; it is what the counter is
  meant to count. The React state set alongside (the ids and total shown by the progress
  modal) is never read by the scheduler and is left out; the scheduler does not look
  inside a job, so the job type is a parameter.
\<close>

definition MAX_CONCURRENT_JOBS :: int where
  "MAX_CONCURRENT_JOBS = 3"

record 'j scheduler =
  jobQueue :: "'j list"
  activeCount :: int
  isProcessing :: bool
  running :: "'j list"

definition initial :: "'j scheduler" where
  "initial = \<lparr>jobQueue = [], activeCount = 0, isProcessing = False, running = []\<rparr>"

text \<open>One turn of the \<open>while\<close> loop of \<open>tryNext\<close>: shift the head job, count it, start it.\<close>

definition launch :: "'j scheduler \<Rightarrow> 'j scheduler" where
  "launch s = s\<lparr>jobQueue := tl (jobQueue s),
               activeCount := activeCount s + 1,
               running := running s @ [hd (jobQueue s)]\<rparr>"

definition may_launch :: "'j scheduler \<Rightarrow> bool" where
  "may_launch s \<longleftrightarrow> activeCount s < MAX_CONCURRENT_JOBS \<and> jobQueue s \<noteq> []"

function tryNext_loop :: "'j scheduler \<Rightarrow> 'j scheduler" where
  "tryNext_loop s = (if may_launch s then tryNext_loop (launch s) else s)"
  by pat_completeness auto
termination
  by (relation "measure (\<lambda>s. length (jobQueue s))") (auto simp: may_launch_def launch_def)

declare tryNext_loop.simps [simp del]

definition tryNext :: "'j scheduler \<Rightarrow> 'j scheduler" where
  "tryNext s =
     (let s' = tryNext_loop s
      in if activeCount s' = 0 \<and> jobQueue s' = [] then s'\<lparr>isProcessing := False\<rparr> else s')"

definition drainQueue :: "'j scheduler \<Rightarrow> 'j scheduler" where
  "drainQueue s = (if isProcessing s then s else tryNext (s\<lparr>isProcessing := True\<rparr>))"

definition addJobsToQueue :: "'j list \<Rightarrow> 'j scheduler \<Rightarrow> 'j scheduler" where
  "addJobsToQueue jobs s =
     (if jobs = [] then s else drainQueue (s\<lparr>jobQueue := jobQueue s @ jobs\<rparr>))"

text \<open>
  The \<open>finally\<close> callback of the \<open>n\<close>-th running job: it runs once the job's promise has
  settled, whether \<open>processJob\<close> succeeded or failed.
\<close>

definition jobSettled :: "nat \<Rightarrow> 'j scheduler \<Rightarrow> 'j scheduler" where
  "jobSettled n s =
     tryNext (s\<lparr>activeCount := activeCount s - 1,
                running := take n (running s) @ drop (Suc n) (running s)\<rparr>)"

text \<open>\<open>handleClearCompleted\<close> resets the refs; the promises of the running jobs are untouched.\<close>

definition handleClearCompleted :: "'j scheduler \<Rightarrow> 'j scheduler" where
  "handleClearCompleted s = s\<lparr>jobQueue := [], activeCount := 0, isProcessing := False\<rparr>"

text \<open>
  Under single-threaded cooperative scheduling the scheduler is driven by a sequence of
  handlers, each run to completion: a call of \<open>addJobsToQueue\<close>, the settling of a running
  job, or a call of \<open>handleClearCompleted\<close>. A job that is not running cannot settle.
\<close>

datatype 'j action = Enqueue "'j list" | Settle nat | Clear

fun step :: "'j scheduler \<Rightarrow> 'j action \<Rightarrow> 'j scheduler" where
  "step s (Enqueue jobs) = addJobsToQueue jobs s"
| "step s (Settle n) = (if n < length (running s) then jobSettled n s else s)"
| "step s Clear = handleClearCompleted s"

definition run :: "'j scheduler \<Rightarrow> 'j action list \<Rightarrow> 'j scheduler" where
  "run s acts = foldl step s acts"

text \<open>
  The instants inside a handler: every state the refs pass through while the \<open>while\<close>
  loop of \<open>tryNext\<close> runs, and the state the handler leaves.
\<close>

function loop_instants :: "'j scheduler \<Rightarrow> 'j scheduler list" where
  "loop_instants s = (if may_launch s then s # loop_instants (launch s) else [s])"
  by pat_completeness auto
termination
  by (relation "measure (\<lambda>s. length (jobQueue s))") (auto simp: may_launch_def launch_def)

declare loop_instants.simps [simp del]

fun instants :: "'j scheduler \<Rightarrow> 'j action \<Rightarrow> 'j scheduler list" where
  "instants s (Enqueue jobs) =
     (if jobs = [] then [s]
      else let s1 = s\<lparr>jobQueue := jobQueue s @ jobs\<rparr>
           in if isProcessing s1 then [s1]
              else loop_instants (s1\<lparr>isProcessing := True\<rparr>) @ [tryNext (s1\<lparr>isProcessing := True\<rparr>)])"
| "instants s (Settle n) =
     (if n < length (running s)
      then let s1 = s\<lparr>activeCount := activeCount s - 1,
                      running := take n (running s) @ drop (Suc n) (running s)\<rparr>
           in loop_instants s1 @ [tryNext s1]
      else [s])"
| "instants s Clear = [handleClearCompleted s]"

fun all_instants :: "'j scheduler \<Rightarrow> 'j action list \<Rightarrow> 'j scheduler list" where
  "all_instants s [] = [s]"
| "all_instants s (a # acts) = s # instants s a @ all_instants (step s a) acts"

text \<open>What the counter is meant to maintain.\<close>

definition counter_exact :: "'j scheduler \<Rightarrow> bool" where
  "counter_exact s \<longleftrightarrow>
     activeCount s = int (length (running s)) \<and> activeCount s \<le> MAX_CONCURRENT_JOBS"

text \<open>
  Sample runs, with jobs named by numbers: twenty-five jobs enqueued at once and some of
  them settling; three jobs started, then a clear, then one of them settling; three jobs
  started, then a clear, then three more enqueued.
\<close>

definition enqueue_25 :: "nat action list" where
  "enqueue_25 = [Enqueue [0..<25], Settle 0, Settle 2, Settle 1, Enqueue [25, 26], Settle 0]"

definition clear_then_settle :: "nat action list" where
  "clear_then_settle = [Enqueue [1, 2, 3], Clear, Settle 0]"

definition clear_then_enqueue :: "nat action list" where
  "clear_then_enqueue = [Enqueue [1, 2, 3], Clear, Enqueue [4, 5, 6]]"

section \<open>generateImageBriefsAndAltsBatch\<close>

text \<open>
  The batch function slices the posts, asks the text model once per slice through
  \<open>retryableAIOperation\<close> (default \<open>retries = 3\<close>, \<open>initialDelay = 2000\<close>), decodes the reply
  and reports progress. Its collaborators are parameters: \<open>generateJsonText\<close> gives the
  outcome of each request, depending on the offset of the slice, on the slice (which
  determines the prompt) and on the number of the attempt; \<open>extractJson\<close> is the service's
  helper of that name; \<open>parseResults\<close> stands for \<open>JSON.parse\<close> followed by the spread of
  the parsed value into \<open>allResults\<close>, either of which may throw.
\<close>

definition BATCH_SIZE :: nat where
  "BATCH_SIZE = 20"

definition DELAY_BETWEEN_BATCHES :: nat where
  "DELAY_BETWEEN_BATCHES = 1000"

record ('p, 'r) batch_env =
  generateJsonText :: "nat \<Rightarrow> 'p list \<Rightarrow> nat \<Rightarrow> thrown + string"
  extractJson :: "string \<Rightarrow> string option"
  parseResults :: "string \<Rightarrow> thrown + 'r list"

text \<open>
  What the function does, in order: \<open>Progress processed total\<close> is a call of \<open>onProgress\<close>,
  \<open>PerBatch batch t\<close> is one run of the retrier for a slice (with the retrier's own trace
  \<open>t\<close>), \<open>BatchDelay ms\<close> is \<open>await delay(ms)\<close> at the end of a turn of the loop.
\<close>

datatype 'p batch_event =
    Progress nat nat
  | PerBatch "'p list" "event list"
  | BatchDelay nat

text \<open>The body of the \<open>try\<close> block up to the results of the batch, and the \<open>catch\<close> clause.\<close>

definition batch_try ::
  "('p, 'r) batch_env \<Rightarrow> string \<Rightarrow> thrown + string \<Rightarrow> thrown + 'r list"
where
  "batch_try env provider response =
     (case response of
        Inl error \<Rightarrow> Inl error
      | Inr responseText \<Rightarrow>
          (case extractJson env responseText of
             None \<Rightarrow>
               Inl (Error (''The AI provider ('' @ provider
                           @ '') returned a response that did not contain valid JSON.''))
           | Some jsonString \<Rightarrow> parseResults env jsonString))"

fun batch_catch :: "string \<Rightarrow> thrown \<Rightarrow> thrown" where
  "batch_catch provider (SyntaxError m) =
     Error (''The AI provider ('' @ provider @ '') returned malformed JSON, even after cleanup.'')"
| "batch_catch provider error = error"

function batch_loop ::
  "('p, 'r) batch_env \<Rightarrow> string \<Rightarrow> 'p list \<Rightarrow> nat \<Rightarrow> 'r list
     \<Rightarrow> (thrown + 'r list) \<times> 'p batch_event list"
where
  "batch_loop env provider posts i allResults =
     (if i < length posts then
        (let batch = take BATCH_SIZE (drop i posts);
             attempt = retryableAIOperation (generateJsonText env i batch) 3 2000
         in case batch_try env provider (fst attempt) of
              Inl error \<Rightarrow> (Inl (batch_catch provider error), [PerBatch batch (snd attempt)])
            | Inr batchResults \<Rightarrow>
                (let rest = batch_loop env provider posts (i + BATCH_SIZE) (allResults @ batchResults)
                 in (fst rest,
                     [PerBatch batch (snd attempt),
                      Progress (min (i + BATCH_SIZE) (length posts)) (length posts)]
                     @ (if i + BATCH_SIZE < length posts then [BatchDelay DELAY_BETWEEN_BATCHES] else [])
                     @ snd rest)))
      else (Inr allResults, []))"
  by pat_completeness auto
termination
  by (relation "measure (\<lambda>(env, provider, posts, i, allResults). length posts - i)")
     (auto simp: BATCH_SIZE_def)

declare batch_loop.simps [simp del]

definition generateImageBriefsAndAltsBatch ::
  "('p, 'r) batch_env \<Rightarrow> string \<Rightarrow> 'p list \<Rightarrow> (thrown + 'r list) \<times> 'p batch_event list"
where
  "generateImageBriefsAndAltsBatch env provider posts =
     (let run = batch_loop env provider posts 0 []
      in (fst run, Progress 0 (length posts) # snd run))"

text \<open>
  Readings of a trace: the slices handed to the retrier and the delays between them, in
  order; and the progress reports.
\<close>

datatype 'p plan_item = Chunk "'p list" | Pause nat

fun plan :: "'p batch_event list \<Rightarrow> 'p plan_item list" where
  "plan [] = []"
| "plan (Progress processed n # t) = plan t"
| "plan (PerBatch batch r # t) = Chunk batch # plan t"
| "plan (BatchDelay ms # t) = Pause ms # plan t"

fun progress_reports :: "'p batch_event list \<Rightarrow> (nat \<times> nat) list" where
  "progress_reports [] = []"
| "progress_reports (Progress processed n # t) = (processed, n) # progress_reports t"
| "progress_reports (PerBatch batch r # t) = progress_reports t"
| "progress_reports (BatchDelay ms # t) = progress_reports t"

text \<open>
  The invocations of the AI operation itself: one entry per invocation the retrier made,
  naming the slice it was made for, in order.
\<close>

fun ai_requests :: "'p batch_event list \<Rightarrow> 'p list list" where
  "ai_requests [] = []"
| "ai_requests (Progress processed n # t) = ai_requests t"
| "ai_requests (PerBatch batch r # t) = replicate (invocations r) batch @ ai_requests t"
| "ai_requests (BatchDelay ms # t) = ai_requests t"

text \<open>\<open>between d xs\<close> puts \<open>d\<close> between every two consecutive elements of \<open>xs\<close>, and nowhere else.\<close>

fun between :: "'a \<Rightarrow> 'a list \<Rightarrow> 'a list" where
  "between d [] = []"
| "between d [x] = [x]"
| "between d (x # y # zs) = x # d # between d (y # zs)"

text \<open>The consecutive slices of twenty posts: slice \<open>k\<close> is \<open>posts.slice(20 * k, 20 * k + 20)\<close>.\<close>

definition slices :: "'p list \<Rightarrow> 'p list list" where
  "slices posts = map (\<lambda>k. take 20 (drop (20 * k) posts)) [0..<(length posts + 19) div 20]"

text \<open>The same slices, cut the way the loop cuts them, starting at offset \<open>i\<close>.\<close>

function slices_from :: "'p list \<Rightarrow> nat \<Rightarrow> 'p list list" where
  "slices_from posts i = (if i < length posts then take 20 (drop i posts) # slices_from posts (i + 20) else [])"
  by pat_completeness auto
termination
  by (relation "measure (\<lambda>(posts, i). length posts - i)") auto

declare slices_from.simps [simp del]

text \<open>
  The outcome of slice \<open>k\<close> when the loop reaches it: the retrier's result for that
  slice, passed through the rest of the \<open>try\<close> block.
\<close>

definition batch_outcome ::
  "('p, 'r) batch_env \<Rightarrow> string \<Rightarrow> 'p list \<Rightarrow> nat \<Rightarrow> thrown + 'r list"
where
  "batch_outcome env provider posts k =
     batch_try env provider
       (fst (retryableAIOperation
               (generateJsonText env (20 * k) (take 20 (drop (20 * k) posts))) 3 2000))"

text \<open>
  Sample environments: every request succeeds with an empty array; the same, but the
  first request for the first slice is throttled; every request is refused.
\<close>

definition always_empty_array :: "(nat, nat) batch_env" where
  "always_empty_array =
     \<lparr>generateJsonText = (\<lambda>i batch attempt. Inr ''[]''),
      extractJson = (\<lambda>text. Some text),
      parseResults = (\<lambda>json. Inr [])\<rparr>"

definition throttled_first_request :: "(nat, nat) batch_env" where
  "throttled_first_request =
     \<lparr>generateJsonText =
        (\<lambda>i batch attempt.
           if i = 0 \<and> attempt = 0 then Inl (FetchError ''API request failed with status 429'' 429)
           else Inr ''[]''),
      extractJson = (\<lambda>text. Some text),
      parseResults = (\<lambda>json. Inr [])\<rparr>"

definition refusing_requests :: "(nat, nat) batch_env" where
  "refusing_requests =
     \<lparr>generateJsonText =
        (\<lambda>i batch attempt. Inl (FetchError ''API request failed with status 401'' 401)),
      extractJson = (\<lambda>text. Some text),
      parseResults = (\<lambda>json. Inr [])\<rparr>"

definition throttles :: "nat \<Rightarrow> nat" where
  "throttles k = (if k = 0 then 1 else 0)"

definition no_results :: "nat \<Rightarrow> nat list" where
  "no_results k = []"

section \<open>The DOM as the placement code sees it\<close>

text \<open>
  A parsed document body is a forest of nodes. The browser's HTML parser and serialiser
  are not part of the repository: they are parameters, \<open>parseFromString\<close> giving the
  children of \<open>doc.body\<close> for a content string, \<open>parseFragment\<close> the nodes that
  \<open>insertAdjacentHTML\<close> or the \<open>innerHTML\<close> setter create from a markup string in the
  context of an element with the given tag, and \<open>innerHTML\<close> the serialisation of the
  children of the body.
\<close>

datatype node =
    Element string "(string \<times> string) list" "node list"
  | Text string
  | Comment string

record dom_env =
  parseFromString :: "string \<Rightarrow> node list"
  parseFragment :: "string \<Rightarrow> string \<Rightarrow> node list"
  innerHTML :: "node list \<Rightarrow> string"

definition newline :: string where
  "newline = [CHR 0x0A]"

text \<open>\<open>querySelectorAll('p')\<close>: the \<open>p\<close> elements below the body, in document order.\<close>

fun paragraphs_of :: "node \<Rightarrow> node list" where
  "paragraphs_of (Element tag attrs kids) =
     (if tag = ''p'' then [Element tag attrs kids] else []) @ concat (map paragraphs_of kids)"
| "paragraphs_of (Text t) = []"
| "paragraphs_of (Comment c) = []"

definition querySelectorAll_p :: "node list \<Rightarrow> node list" where
  "querySelectorAll_p body = concat (map paragraphs_of body)"

fun textContent :: "node \<Rightarrow> string" where
  "textContent (Element tag attrs kids) = concat (map textContent kids)"
| "textContent (Text t) = t"
| "textContent (Comment c) = []"

text \<open>\<open>stripHtml\<close>: \<open>doc.body.textContent || ""\<close>\<close>

definition stripHtml :: "dom_env \<Rightarrow> string \<Rightarrow> string" where
  "stripHtml browser html = concat (map textContent (parseFromString browser html))"

text \<open>
  \<open>paragraphs[k].insertAdjacentHTML('afterend', markup)\<close>: the nodes parsed from the markup
  in the context of the paragraph's parent become the siblings that follow the \<open>k\<close>-th
  paragraph (counted in document order). \<open>fragment\<close> maps the tag of the parent to those
  nodes; \<open>parent\<close> is the tag of the element whose children are being walked.
\<close>

fun insertAfter_node :: "(string \<Rightarrow> node list) \<Rightarrow> string \<Rightarrow> nat \<Rightarrow> node \<Rightarrow> node list"
  and insertAfter_forest :: "(string \<Rightarrow> node list) \<Rightarrow> string \<Rightarrow> nat \<Rightarrow> node list \<Rightarrow> node list"
where
  "insertAfter_node fragment parent k (Element tag attrs kids) =
     (if tag = ''p'' then
        (if k = 0 then Element tag attrs kids # fragment parent
         else [Element tag attrs (insertAfter_forest fragment tag (k - 1) kids)])
      else [Element tag attrs (insertAfter_forest fragment tag k kids)])"
| "insertAfter_node fragment parent k (Text t) = [Text t]"
| "insertAfter_node fragment parent k (Comment c) = [Comment c]"
| "insertAfter_forest fragment parent k [] = []"
| "insertAfter_forest fragment parent k (n # ns) =
     (if k < length (paragraphs_of n) then insertAfter_node fragment parent k n @ ns
      else n # insertAfter_forest fragment parent (k - length (paragraphs_of n)) ns)"

definition insertAdjacentHTML_afterend :: "dom_env \<Rightarrow> string \<Rightarrow> nat \<Rightarrow> node list \<Rightarrow> node list" where
  "insertAdjacentHTML_afterend browser markup k body =
     insertAfter_forest (\<lambda>parent. parseFragment browser parent markup) ''body'' k body"

section \<open>insertPlaceholderHeuristically\<close>

definition insertPlaceholderHeuristically :: "dom_env \<Rightarrow> string \<Rightarrow> string \<Rightarrow> string" where
  "insertPlaceholderHeuristically browser postContent placeholder =
     (let body = parseFromString browser postContent;
          paragraphs = querySelectorAll_p body;
          targetIndex = (if length paragraphs > 2 then 1
                         else if length paragraphs > 1 then 0
                         else - 1 :: int)
      in if targetIndex \<noteq> - 1 \<and> nat targetIndex < length paragraphs then
           innerHTML browser
             (insertAdjacentHTML_afterend browser (newline @ placeholder @ newline) (nat targetIndex) body)
         else if length paragraphs > 0 then
           innerHTML browser
             (insertAdjacentHTML_afterend browser (newline @ placeholder @ newline)
                (length paragraphs - 1) body)
         else
           innerHTML browser (parseFragment browser ''body'' (placeholder @ newline @ innerHTML browser body)))"

text \<open>The two shapes a result can have.\<close>

definition placed_after :: "dom_env \<Rightarrow> string \<Rightarrow> string \<Rightarrow> nat \<Rightarrow> string" where
  "placed_after browser postContent placeholder k =
     innerHTML browser
       (insertAdjacentHTML_afterend browser (newline @ placeholder @ newline) k
          (parseFromString browser postContent))"

definition prepended :: "dom_env \<Rightarrow> string \<Rightarrow> string \<Rightarrow> string" where
  "prepended browser postContent placeholder =
     innerHTML browser
       (parseFragment browser ''body''
          (placeholder @ newline @ innerHTML browser (parseFromString browser postContent)))"

definition block_count :: "dom_env \<Rightarrow> string \<Rightarrow> nat" where
  "block_count browser postContent = length (querySelectorAll_p (parseFromString browser postContent))"

section \<open>getContentWithImagePlaceholder\<close>

text \<open>
  \<open>String.prototype.trim\<close>, the first run of decimal digits in a string (what the match
  of the digit pattern returns) and \<open>parseInt(_, 10)\<close> on such a run. White space is the
  ECMAScript set as far as it falls into the character type.
\<close>

definition is_whitespace :: "char \<Rightarrow> bool" where
  "is_whitespace c \<longleftrightarrow> c \<in> set [CHR 0x09, CHR 0x0A, CHR 0x0B, CHR 0x0C, CHR 0x0D, CHR 0x20, CHR 0xA0]"

definition js_trim :: "string \<Rightarrow> string" where
  "js_trim s = rev (dropWhile is_whitespace (rev (dropWhile is_whitespace s)))"

definition is_digit :: "char \<Rightarrow> bool" where
  "is_digit c \<longleftrightarrow> c \<in> set ''0123456789''"

definition first_digits :: "string \<Rightarrow> string option" where
  "first_digits s =
     (let r = dropWhile (\<lambda>c. \<not> is_digit c) s
      in if r = [] then None else Some (takeWhile is_digit r))"

definition parseInt :: "string \<Rightarrow> nat" where
  "parseInt ds = foldl (\<lambda>n c. 10 * n + (of_char c - 48)) 0 ds"

text \<open>
  The text model is a parameter: its outcome depends on the prompt, which is determined by
  the cleaned title and the numbered paragraphs sent, and on the number of the attempt.
\<close>

type_synonym text_model = "string \<Rightarrow> (nat \<times> string) list \<Rightarrow> nat \<Rightarrow> thrown + string"

definition paragraphsToAnalyze :: "node list \<Rightarrow> (nat \<times> string) list" where
  "paragraphsToAnalyze paragraphs =
     filter (\<lambda>(num, text). length text > 80)
       (map (\<lambda>(index, p). (index + 1, js_trim (textContent p)))
          (enumerate 0 (take 5 paragraphs)))"

text \<open>The body of the \<open>try\<close> block; \<open>Inl\<close> is a throw, taken by the \<open>catch\<close> clause.\<close>

definition placement_try :: "dom_env \<Rightarrow> text_model \<Rightarrow> string \<Rightarrow> string \<Rightarrow> thrown + string" where
  "placement_try browser generateText postContent cleanTitle =
     (let placeholder = ''<!-- INSERT_IMAGE_HERE -->'';
          body = parseFromString browser postContent;
          paragraphs = querySelectorAll_p body;
          toAnalyze = paragraphsToAnalyze paragraphs
      in if length toAnalyze < 2 then
           Inr (insertPlaceholderHeuristically browser postContent placeholder)
         else
           (case fst (retryableAIOperation (generateText cleanTitle toAnalyze) 2 500) of
              Inl error \<Rightarrow> Inl error
            | Inr responseText \<Rightarrow>
                (let chosenParagraphNumber =
                       parseInt (case first_digits (js_trim responseText) of
                                   None \<Rightarrow> ''1'' | Some ds \<Rightarrow> ds);
                     targetParagraphIndex =
                       (if chosenParagraphNumber < 1 \<or> chosenParagraphNumber > length paragraphs
                        then 1 else chosenParagraphNumber - 1)
                 in if targetParagraphIndex < length paragraphs then
                      Inr (innerHTML browser
                             (insertAdjacentHTML_afterend browser (newline @ placeholder @ newline)
                                targetParagraphIndex body))
                    else Inr (insertPlaceholderHeuristically browser postContent placeholder))))"

definition getContentWithImagePlaceholder :: "dom_env \<Rightarrow> text_model \<Rightarrow> string \<Rightarrow> string \<Rightarrow> string" where
  "getContentWithImagePlaceholder browser generateText postContent postTitle =
     (let placeholder = ''<!-- INSERT_IMAGE_HERE -->'';
          cleanTitle = stripHtml browser postTitle;
          body = parseFromString browser postContent;
          paragraphs = querySelectorAll_p body
      in if length paragraphs < 3 then insertPlaceholderHeuristically browser postContent placeholder
         else (case placement_try browser generateText postContent cleanTitle of
                 Inr content \<Rightarrow> content
               | Inl error \<Rightarrow> insertPlaceholderHeuristically browser postContent placeholder))"

text \<open>
  Whether the text model is consulted, and what the retrier (two attempts, 500 ms) returns
  for it.
\<close>

definition ai_eligible :: "dom_env \<Rightarrow> string \<Rightarrow> bool" where
  "ai_eligible browser postContent \<longleftrightarrow>
     3 \<le> block_count browser postContent
     \<and> 2 \<le> length (paragraphsToAnalyze (querySelectorAll_p (parseFromString browser postContent)))"

definition ai_reply :: "dom_env \<Rightarrow> text_model \<Rightarrow> string \<Rightarrow> string \<Rightarrow> thrown + string" where
  "ai_reply browser generateText postContent postTitle =
     fst (retryableAIOperation
            (generateText (stripHtml browser postTitle)
               (paragraphsToAnalyze (querySelectorAll_p (parseFromString browser postContent))))
            2 500)"

text \<open>
  A small DOM for evaluating the functions on sample documents: serialisation without
  character escaping, and a parser that recognises the serialisations of the sample
  bodies and takes anything else for plain text.
\<close>

fun serialize :: "node \<Rightarrow> string" where
  "serialize (Element tag attrs kids) =
     ''<'' @ tag @ concat (map (\<lambda>(k, v). '' '' @ k @ ''='' @ [CHR 0x22] @ v @ [CHR 0x22]) attrs) @ ''>''
     @ concat (map serialize kids) @ ''</'' @ tag @ ''>''"
| "serialize (Text t) = t"
| "serialize (Comment c) = ''<!--'' @ c @ ''-->''"

definition html :: "node list \<Rightarrow> string" where
  "html body = concat (map serialize body)"

definition INSERT_IMAGE_HERE :: string where
  "INSERT_IMAGE_HERE = ''<!-- INSERT_IMAGE_HERE -->''"

definition long_text :: "char \<Rightarrow> string" where
  "long_text c = replicate 90 c"

definition marker :: "node list" where
  "marker = [Text newline, Comment '' INSERT_IMAGE_HERE '', Text newline]"

definition no_paragraph :: "node list" where
  "no_paragraph = [Text ''Hello'']"

definition one_paragraph :: "node list" where
  "one_paragraph = [Element ''p'' [] [Text ''Hello'']]"

definition two_paragraphs :: "node list" where
  "two_paragraphs = [Element ''p'' [] [Text ''One''], Element ''p'' [] [Text ''Two'']]"

definition three_paragraphs :: "node list" where
  "three_paragraphs =
     [Element ''p'' [] [Text (long_text CHR ''a'')],
      Element ''p'' [] [Text (long_text CHR ''b'')],
      Element ''p'' [] [Text (long_text CHR ''c'')]]"

definition five_paragraphs :: "node list" where
  "five_paragraphs =
     [Element ''div'' [] [Element ''p'' [] [Text ''1''], Element ''p'' [] [Text ''2'']],
      Element ''p'' [] [Text ''3''], Element ''p'' [] [Text ''4''], Element ''p'' [] [Text ''5'']]"

definition samples :: "node list list" where
  "samples =
     [marker, no_paragraph, one_paragraph, two_paragraphs, three_paragraphs, five_paragraphs,
      [Comment '' INSERT_IMAGE_HERE '', Text (newline @ ''Hello'')]]"

definition sample_parse :: "string \<Rightarrow> node list" where
  "sample_parse markup =
     (case find (\<lambda>body. html body = markup) samples of
        Some body \<Rightarrow> body
      | None \<Rightarrow> [Text markup])"

definition sample_dom :: dom_env where
  "sample_dom =
     \<lparr>parseFromString = sample_parse,
      parseFragment = (\<lambda>parent markup. sample_parse markup),
      innerHTML = html\<rparr>"

text \<open>Sample text models: one that answers without any digit, one that names paragraph 3.\<close>

definition replies_none :: text_model where
  "replies_none cleanTitle toAnalyze attempt = Inr ''none''"

definition replies_three :: text_model where
  "replies_three cleanTitle toAnalyze attempt = Inr '' 3''"

definition always_failing :: text_model where
  "always_failing cleanTitle toAnalyze attempt = Inl (Error ''OpenAI API key is required.'')"

section \<open>Posts, jobs and processJob\<close>

datatype status =
    Status_idle | Status_pending | Status_generating_brief | Status_generating_image
  | Status_analyzing | Status_analyzing_placement | Status_uploading | Status_inserting
  | Status_setting_featured | Status_updating_meta | Status_analysis_success
  | Status_success | Status_error

record generatedImage =
  url :: string
  alt :: string
  mediaId :: nat
  image_brief :: "string option"

text \<open>The fields of \<open>WordPressPost\<close> that the job processor reads or writes.\<close>

record WordPressPost =
  post_id :: nat
  title_rendered :: string
  excerpt_rendered :: string
  content_rendered :: string
  featured_media :: nat
  imageCount :: nat
  existingImageUrl :: "string option"
  existingImageAltText :: "string option"
  generatedImage :: "generatedImage option"
  status :: "status option"
  statusMessage :: "string option"

datatype JobAction = Generate | Insert | Insert_at | Set_featured | Upload_insert

record payload =
  imageUrl :: string
  altText :: string
  imageDataUrl :: "string option"
  prebuiltContent :: "string option"

record Job =
  post :: WordPressPost
  action :: JobAction
  payload :: "payload option"

text \<open>
  \<open>Partial<WordPressPost>\<close> as \<open>processJob\<close> uses it: status and message are always set,
  the other fields only where given.
\<close>

record post_update =
  new_status :: status
  new_statusMessage :: string
  new_generatedImage :: "generatedImage option"
  new_imageCount :: "nat option"
  new_content_rendered :: "string option"
  new_featured_media :: "nat option"

definition transition :: "status \<Rightarrow> string \<Rightarrow> post_update" where
  "transition s m =
     \<lparr>new_status = s, new_statusMessage = m, new_generatedImage = None, new_imageCount = None,
      new_content_rendered = None, new_featured_media = None\<rparr>"

definition apply_update :: "post_update \<Rightarrow> WordPressPost \<Rightarrow> WordPressPost" where
  "apply_update u p =
     p\<lparr>status := Some (new_status u),
       statusMessage := Some (new_statusMessage u),
       generatedImage := (case new_generatedImage u of None \<Rightarrow> generatedImage p | Some g \<Rightarrow> Some g),
       imageCount := (case new_imageCount u of None \<Rightarrow> imageCount p | Some n \<Rightarrow> n),
       content_rendered := (case new_content_rendered u of None \<Rightarrow> content_rendered p | Some c \<Rightarrow> c),
       featured_media := (case new_featured_media u of None \<Rightarrow> featured_media p | Some m \<Rightarrow> m)\<rparr>"

text \<open>\<open>setPosts(prev => prev.map(p => p.id === postId ? { ...p, ...updates } : p))\<close>\<close>

definition updatePostState :: "nat \<Rightarrow> post_update \<Rightarrow> WordPressPost list \<Rightarrow> WordPressPost list" where
  "updatePostState postId updates prev =
     map (\<lambda>p. if post_id p = postId then apply_update updates p else p) prev"

text \<open>
  \<open>String.prototype.replace\<close> with a string pattern: the first occurrence is replaced, and
  in the replacement \<open>$$\<close>, \<open>$&\<close>, \<open>$`\<close> and \<open>$'\<close> stand for a dollar sign, the match, the text
  before it and the text after it.
\<close>

fun split_first :: "string \<Rightarrow> string \<Rightarrow> (string \<times> string) option" where
  "split_first [] pat = (if pat = [] then Some ([], []) else None)"
| "split_first (c # cs) pat =
     (if js_startsWith (c # cs) pat then Some ([], drop (length pat) (c # cs))
      else map_option (\<lambda>(front, back). (c # front, back)) (split_first cs pat))"

fun expand_replacement :: "string \<Rightarrow> string \<Rightarrow> string \<Rightarrow> string \<Rightarrow> string" where
  "expand_replacement [] front matched back = []"
| "expand_replacement [c] front matched back = [c]"
| "expand_replacement (c # d # r) front matched back =
     (if c = CHR ''$'' \<and> d = CHR ''$'' then CHR ''$'' # expand_replacement r front matched back
      else if c = CHR ''$'' \<and> d = CHR ''&'' then matched @ expand_replacement r front matched back
      else if c = CHR ''$'' \<and> d = CHR 0x60 then front @ expand_replacement r front matched back
      else if c = CHR ''$'' \<and> d = CHR 0x27 then back @ expand_replacement r front matched back
      else c # expand_replacement (d # r) front matched back)"

definition js_replace :: "string \<Rightarrow> string \<Rightarrow> string \<Rightarrow> string" where
  "js_replace s pat replacement =
     (case split_first s pat of
        None \<Rightarrow> s
      | Some (front, back) \<Rightarrow> front @ expand_replacement replacement front pat back @ back)"

text \<open>\<open>altText.replace(/"/g, '&quot;')\<close>\<close>

definition escape_quotes :: "string \<Rightarrow> string" where
  "escape_quotes s = concat (map (\<lambda>c. if c = CHR 0x22 then ''&quot;'' else [c]) s)"

definition imageHtml :: "string \<Rightarrow> string \<Rightarrow> string" where
  "imageHtml src caption =
     ''<figure class='' @ [CHR 0x22] @ ''wp-block-image size-large'' @ [CHR 0x22] @ ''><img src=''
     @ [CHR 0x22] @ src @ [CHR 0x22] @ '' alt='' @ [CHR 0x22] @ escape_quotes caption @ [CHR 0x22]
     @ ''/><figcaption>'' @ caption @ ''</figcaption></figure>''"

text \<open>
  The collaborators of the job processor. The brief generation and the placement are the
  functions modelled above, with their own parameters; image generation and the two
  WordPress calls are remote operations given by their outcome.
\<close>

record imageBrief =
  postId :: nat
  brief :: string
  brief_altText :: string

record WordPressMediaResponse =
  media_id :: nat
  source_url :: string

datatype post_fields = Content string | Featured_media nat

record job_env =
  analysis_provider :: string
  analysis_batch :: "(WordPressPost, imageBrief) batch_env"
  analysis_text :: text_model
  browser_dom :: dom_env
  image_style :: string
  image_negativePrompt :: "string option"
  generateImage :: "string \<Rightarrow> thrown + string"
  uploadImage :: "string \<Rightarrow> string \<Rightarrow> string \<Rightarrow> thrown + WordPressMediaResponse"
  updatePost :: "nat \<Rightarrow> post_fields \<Rightarrow> thrown + unit"
  date_now :: nat

text \<open>
  What a run of \<open>processJob\<close> does, in order: \<open>Published\<close> is a call of \<open>updatePostState\<close>,
  \<open>Awaited\<close> a call into the AI service or the WordPress service.
\<close>

datatype service_call =
    Call_generateImageBriefsAndAltsBatch "WordPressPost list"
  | Call_generateImage string
  | Call_uploadImage string string string
  | Call_getContentWithImagePlaceholder string string
  | Call_updatePost nat post_fields

datatype job_event = Published nat post_update | Awaited service_call

type_synonym job_run = "(thrown + unit) \<times> job_event list"

definition generate_steps :: "job_env \<Rightarrow> WordPressPost \<Rightarrow> Job \<Rightarrow> job_run" where
  "generate_steps env currentPost job =
     (let pid = post_id (post job);
          t1 = [Published pid (transition Status_generating_brief ''Analyzing content...''),
                Awaited (Call_generateImageBriefsAndAltsBatch [currentPost])]
      in case fst (generateImageBriefsAndAltsBatch (analysis_batch env) (analysis_provider env)
                     [currentPost]) of
           Inl error \<Rightarrow> (Inl error, t1)
         | Inr [] \<Rightarrow> (Inl (Error ''Failed to generate image brief.''), t1)
         | Inr (briefData # others) \<Rightarrow>
             (let fullPrompt =
                    brief briefData @ '', '' @ image_style env
                    @ (case image_negativePrompt env of
                         None \<Rightarrow> []
                       | Some n \<Rightarrow> if n = [] then [] else '', avoiding '' @ n);
                  t2 = t1 @ [Published pid (transition Status_generating_image ''Creating image...''),
                             Awaited (Call_generateImage fullPrompt)]
              in case generateImage env fullPrompt of
                   Inl error \<Rightarrow> (Inl error, t2)
                 | Inr imageData \<Rightarrow>
                     (let filename = ''ai-img-'' @ show_nat pid @ ''.png'';
                          t3 = t2 @ [Published pid (transition Status_uploading
                                                     ''Uploading to WordPress...''),
                                     Awaited (Call_uploadImage imageData filename
                                                (brief_altText briefData))]
                      in case uploadImage env imageData filename (brief_altText briefData) of
                           Inl error \<Rightarrow> (Inl error, t3)
                         | Inr uploadedImage \<Rightarrow>
                             (Inr (),
                              t3 @ [Published pid
                                      ((transition Status_success ''Image generated!'')
                                         \<lparr>new_generatedImage :=
                                            Some \<lparr>url = source_url uploadedImage,
                                                  alt = brief_altText briefData,
                                                  mediaId = media_id uploadedImage,
                                                  image_brief = Some (brief briefData)\<rparr>\<rparr>)]))))"

definition insert_steps :: "job_env \<Rightarrow> WordPressPost \<Rightarrow> Job \<Rightarrow> job_run" where
  "insert_steps env currentPost job =
     (let pid = post_id (post job)
      in case payload job of
           None \<Rightarrow> (Inl (Error ''No image URL for insertion.''), [])
         | Some pl \<Rightarrow>
             if imageUrl pl = [] then (Inl (Error ''No image URL for insertion.''), [])
             else
               (let contentWithPlaceholder =
                      getContentWithImagePlaceholder (browser_dom env) (analysis_text env)
                        (content_rendered currentPost) (title_rendered currentPost);
                    newContent =
                      js_replace contentWithPlaceholder ''<!-- INSERT_IMAGE_HERE -->''
                        (imageHtml (imageUrl pl) (altText pl));
                    t1 = [Published pid (transition Status_analyzing_placement
                                           ''AI finding best spot...''),
                          Awaited (Call_getContentWithImagePlaceholder
                                     (content_rendered currentPost) (title_rendered currentPost)),
                          Published pid (transition Status_inserting ''Updating post...''),
                          Awaited (Call_updatePost pid (Content newContent))]
                in case updatePost env pid (Content newContent) of
                     Inl error \<Rightarrow> (Inl error, t1)
                   | Inr u \<Rightarrow>
                       (Inr (),
                        t1 @ [Published pid
                                ((transition Status_success ''Image inserted (auto)!'')
                                   \<lparr>new_imageCount := Some (imageCount currentPost + 1),
                                    new_content_rendered := Some newContent\<rparr>)])))"

definition insert_at_steps :: "job_env \<Rightarrow> WordPressPost \<Rightarrow> Job \<Rightarrow> job_run" where
  "insert_at_steps env currentPost job =
     (let pid = post_id (post job);
          missing = (Inl (Error ''No content provided for manual insertion.''), [])
      in case payload job of
           None \<Rightarrow> missing
         | Some pl \<Rightarrow>
             (case prebuiltContent pl of
                None \<Rightarrow> missing
              | Some content \<Rightarrow>
                  if content = [] then missing
                  else
                    (let t1 = [Published pid (transition Status_inserting ''Updating post...''),
                               Awaited (Call_updatePost pid (Content content))]
                     in case updatePost env pid (Content content) of
                          Inl error \<Rightarrow> (Inl error, t1)
                        | Inr u \<Rightarrow>
                            (Inr (),
                             t1 @ [Published pid
                                     ((transition Status_success ''Image inserted (manual)!'')
                                        \<lparr>new_imageCount := Some (imageCount currentPost + 1),
                                         new_content_rendered := Some content\<rparr>)]))))"

definition set_featured_steps :: "job_env \<Rightarrow> WordPressPost \<Rightarrow> Job \<Rightarrow> job_run" where
  "set_featured_steps env currentPost job =
     (let pid = post_id (post job);
          missing = (Inl (Error ''No generated image to set as featured.''), [])
      in case generatedImage currentPost of
           None \<Rightarrow> missing
         | Some g \<Rightarrow>
             if mediaId g = 0 then missing
             else
               (let t1 = [Published pid (transition Status_setting_featured
                                           ''Setting featured image...''),
                          Awaited (Call_updatePost pid (Featured_media (mediaId g)))]
                in case updatePost env pid (Featured_media (mediaId g)) of
                     Inl error \<Rightarrow> (Inl error, t1)
                   | Inr u \<Rightarrow>
                       (Inr (),
                        t1 @ [Published pid
                                ((transition Status_success ''Featured image set!'')
                                   \<lparr>new_featured_media := Some (mediaId g)\<rparr>)])))"

definition upload_insert_steps :: "job_env \<Rightarrow> WordPressPost \<Rightarrow> Job \<Rightarrow> job_run" where
  "upload_insert_steps env currentPost job =
     (let pid = post_id (post job);
          missing = (Inl (Error ''Image data and alt text required.''), [])
      in case payload job of
           None \<Rightarrow> missing
         | Some pl \<Rightarrow>
             (case imageDataUrl pl of
                None \<Rightarrow> missing
              | Some imageData \<Rightarrow>
                  if imageData = [] \<or> altText pl = [] then missing
                  else
                    (let filename = ''uploaded-img-'' @ show_nat pid @ ''-''
                                    @ show_nat (date_now env) @ ''.png'';
                         t1 = [Published pid (transition Status_uploading ''Uploading image...''),
                               Awaited (Call_uploadImage imageData filename (altText pl))]
                     in case uploadImage env imageData filename (altText pl) of
                          Inl error \<Rightarrow> (Inl error, t1)
                        | Inr uploadedImage \<Rightarrow>
                            (let contentWithPlaceholder =
                                   getContentWithImagePlaceholder (browser_dom env)
                                     (analysis_text env) (content_rendered currentPost)
                                     (title_rendered currentPost);
                                 newContent =
                                   js_replace contentWithPlaceholder ''<!-- INSERT_IMAGE_HERE -->''
                                     (imageHtml (source_url uploadedImage) (altText pl));
                                 t2 = t1 @
                                   [Published pid (transition Status_analyzing_placement
                                                     ''Finding best spot...''),
                                    Awaited (Call_getContentWithImagePlaceholder
                                               (content_rendered currentPost)
                                               (title_rendered currentPost)),
                                    Published pid (transition Status_inserting ''Updating post...''),
                                    Awaited (Call_updatePost pid (Content newContent))]
                             in case updatePost env pid (Content newContent) of
                                  Inl error \<Rightarrow> (Inl error, t2)
                                | Inr u \<Rightarrow>
                                    (Inr (),
                                     t2 @ [Published pid
                                             ((transition Status_success
                                                 ''Image uploaded & inserted!'')
                                                \<lparr>new_generatedImage :=
                                                   Some \<lparr>url = source_url uploadedImage,
                                                         alt = altText pl,
                                                         mediaId = media_id uploadedImage,
                                                         image_brief = None\<rparr>,
                                                 new_imageCount := Some (imageCount currentPost + 1),
                                                 new_content_rendered := Some newContent\<rparr>)])))))"

text \<open>The body of the \<open>try\<close> block: \<open>current\<close> is \<open>postsRef.current\<close> when the job starts.\<close>

definition job_steps :: "job_env \<Rightarrow> WordPressPost list \<Rightarrow> Job \<Rightarrow> job_run" where
  "job_steps env current job =
     (case find (\<lambda>p. post_id p = post_id (post job)) current of
        None \<Rightarrow>
          (Inl (Error (''Post '' @ show_nat (post_id (post job)) @ '' not found in current state.'')),
           [])
      | Some currentPost \<Rightarrow>
          (case action job of
             Generate \<Rightarrow> generate_steps env currentPost job
           | Insert \<Rightarrow> insert_steps env currentPost job
           | Insert_at \<Rightarrow> insert_at_steps env currentPost job
           | Set_featured \<Rightarrow> set_featured_steps env currentPost job
           | Upload_insert \<Rightarrow> upload_insert_steps env currentPost job))"

text \<open>The \<open>catch\<close> clause: \<open>error instanceof Error ? error.message : 'An unknown error occurred.'\<close>\<close>

fun caught_message :: "thrown \<Rightarrow> string" where
  "caught_message (Value js) = ''An unknown error occurred.''"
| "caught_message error = errorMessage error"

definition processJob :: "job_env \<Rightarrow> WordPressPost list \<Rightarrow> Job \<Rightarrow> job_event list" where
  "processJob env current job =
     (case job_steps env current job of
        (Inr u, trace) \<Rightarrow> trace
      | (Inl error, trace) \<Rightarrow>
          trace @ [Published (post_id (post job))
                     (transition Status_error (caught_message error))])"

text \<open>Readings of a run: the service calls made, the updates published, their effect on the posts.\<close>

fun service_calls :: "job_event list \<Rightarrow> service_call list" where
  "service_calls [] = []"
| "service_calls (Published pid u # t) = service_calls t"
| "service_calls (Awaited c # t) = c # service_calls t"

fun publish :: "job_event list \<Rightarrow> WordPressPost list \<Rightarrow> WordPressPost list" where
  "publish [] posts = posts"
| "publish (Published pid u # t) posts = publish t (updatePostState pid u posts)"
| "publish (Awaited c # t) posts = publish t posts"

text \<open>A sample environment in which every remote operation fails, and two sample posts.\<close>

definition offline :: job_env where
  "offline =
     \<lparr>analysis_provider = ''gemini'',
      analysis_batch = \<lparr>generateJsonText = (\<lambda>i batch attempt. Inl (Error ''Failed to fetch'')),
                        extractJson = (\<lambda>text. None),
                        parseResults = (\<lambda>json. Inr [])\<rparr>,
      analysis_text = always_failing,
      browser_dom = sample_dom,
      image_style = ''photo'',
      image_negativePrompt = None,
      generateImage = (\<lambda>prompt. Inl (Error ''Failed to fetch'')),
      uploadImage = (\<lambda>imageData filename altText. Inl (Error ''Failed to fetch'')),
      updatePost = (\<lambda>pid fields. Inl (Error ''Failed to fetch'')),
      date_now = 0\<rparr>"

definition sample_post :: "nat \<Rightarrow> WordPressPost" where
  "sample_post n =
     \<lparr>post_id = n, title_rendered = ''Title'', excerpt_rendered = '''',
      content_rendered = ''<p>Hello</p>'', featured_media = 0, imageCount = 0,
      existingImageUrl = None, existingImageAltText = None, generatedImage = None,
      status = Some Status_idle, statusMessage = None\<rparr>"

definition insert_without_url :: Job where
  "insert_without_url =
     \<lparr>post = sample_post 7, action = Insert,
      payload = Some \<lparr>imageUrl = '''', altText = ''A cat'', imageDataUrl = None,
                      prebuiltContent = None\<rparr>\<rparr>"

section \<open>Properties of the retry layer\<close>

subsection \<open>Strings\<close>

lemma js_startsWith_iff: "js_startsWith s sub \<longleftrightarrow> (\<exists>r. s = sub @ r)"
  by (induction sub arbitrary: s) (auto split: list.splits)

lemma js_includes_iff: "js_includes s sub \<longleftrightarrow> (\<exists>l r. s = l @ sub @ r)"
proof (induction s)
  case Nil
  then show ?case by auto
next
  case (Cons c s)
  show ?case
  proof
    assume "js_includes (c # s) sub"
    then consider "js_startsWith (c # s) sub" | "js_includes s sub" by auto
    then show "\<exists>l r. c # s = l @ sub @ r"
    proof cases
      case 1
      then obtain r where "c # s = sub @ r" by (auto simp: js_startsWith_iff)
      then have "c # s = [] @ sub @ r" by simp
      then show ?thesis by blast
    next
      case 2
      then obtain l r where "s = l @ sub @ r" using Cons by blast
      then have "c # s = (c # l) @ sub @ r" by simp
      then show ?thesis by blast
    qed
  next
    assume "\<exists>l r. c # s = l @ sub @ r"
    then obtain l r where lr: "c # s = l @ sub @ r" by blast
    show "js_includes (c # s) sub"
    proof (cases l)
      case Nil
      then have "js_startsWith (c # s) sub" using lr by (auto simp: js_startsWith_iff)
      then show ?thesis by simp
    next
      case (Cons d l')
      then have "s = l' @ sub @ r" using lr by simp
      then have "js_includes s sub" using Cons.IH by blast
      then show ?thesis by simp
    qed
  qed
qed

lemma js_startsWith_set: "js_startsWith s sub \<Longrightarrow> set sub \<subseteq> set s"
  by (induction sub arbitrary: s) (auto split: list.splits)

lemma js_includes_set: "js_includes s sub \<Longrightarrow> set sub \<subseteq> set s"
proof (induction s)
  case Nil
  then show ?case by simp
next
  case (Cons c s)
  from Cons.prems consider "js_startsWith (c # s) sub" | "js_includes s sub" by auto
  then show ?case
  proof cases
    case 1
    then show ?thesis by (rule js_startsWith_set)
  next
    case 2
    then have "set sub \<subseteq> set s" by (rule Cons.IH)
    then show ?thesis by auto
  qed
qed

lemma digit_char_in: "digit_char d \<in> set ''0123456789''"
  unfolding digit_char_def by (rule nth_mem) simp

lemma show_nat_digits: "set (show_nat n) \<subseteq> set ''0123456789''"
proof (induction n rule: show_nat.induct)
  case (1 n)
  show ?case
  proof (cases "n < 10")
    case True
    then show ?thesis using digit_char_in[of n] by (subst show_nat.simps) simp
  next
    case False
    then show ?thesis using 1 digit_char_in[of "n mod 10"] by (subst show_nat.simps) simp
  qed
qed

lemma show_millis_as_seconds_chars: "set (show_millis_as_seconds t) \<subseteq> set ''0123456789.''"
proof -
  define D where "D = set ''0123456789.''"
  have sub: "set ''0123456789'' \<subseteq> D" unfolding D_def by (simp add: subset_insertI2)
  have w: "set (show_nat n) \<subseteq> D" for n
    using show_nat_digits[of n] sub by (rule subset_trans)
  have d: "digit_char k \<in> D" for k
    using digit_char_in[of k] sub by (rule rev_subsetD)
  have dot: "CHR ''.'' \<in> D" unfolding D_def by simp
  have "set (show_millis_as_seconds t) \<subseteq> D"
    unfolding show_millis_as_seconds_def Let_def using w d dot by simp
  then show ?thesis unfolding D_def .
qed

subsection \<open>What a timeout looks like to the classifier\<close>

lemma includes_429_before_seconds:
  "js_includes (x @ '' seconds.'') ''429'' = js_includes x ''429''"
proof (induction x)
  case Nil
  then show ?case by simp
next
  case (Cons c x)
  have "js_startsWith (c # x @ '' seconds.'') ''429'' = js_startsWith (c # x) ''429''"
    by (auto split: list.splits)
  then show ?case using Cons by simp
qed

lemma timeout_message_429:
  "js_includes (''Request timed out after '' @ show_millis_as_seconds t @ '' seconds.'') ''429''
     = js_includes (show_millis_as_seconds t) ''429''"
  by (simp add: includes_429_before_seconds)

lemma timeout_message_not_exhausted:
  "\<not> js_includes (''Request timed out after '' @ show_millis_as_seconds t @ '' seconds.'')
       ''RESOURCE_EXHAUSTED''"
proof
  assume "js_includes (''Request timed out after '' @ show_millis_as_seconds t @ '' seconds.'')
            ''RESOURCE_EXHAUSTED''"
  then have "set ''RESOURCE_EXHAUSTED''
               \<subseteq> set (''Request timed out after '' @ show_millis_as_seconds t @ '' seconds.'')"
    by (rule js_includes_set)
  moreover have "CHR ''_'' \<in> set ''RESOURCE_EXHAUSTED''" by simp
  ultimately have "CHR ''_'' \<in> set (''Request timed out after '' @ show_millis_as_seconds t @ '' seconds.'')"
    by (rule subsetD)
  then have "CHR ''_'' \<in> set (show_millis_as_seconds t)" by simp
  then have "CHR ''_'' \<in> set ''0123456789.''" using show_millis_as_seconds_chars[of t] by (rule rev_subsetD)
  then show False by simp
qed

lemma timeout_isRateLimitError:
  "isRateLimitError (Error (''Request timed out after '' @ show_millis_as_seconds t @ '' seconds.''))
     = js_includes (show_millis_as_seconds t) ''429''"
  unfolding isRateLimitError_def
  using timeout_message_429[of t] timeout_message_not_exhausted[of t] by simp

subsection \<open>One turn of the loop\<close>

lemma retry_loop_retryable:
  assumes "i < retries" and "apiCall i = Inl e" and "isRateLimitError e"
  shows "retry_loop apiCall retries d i lastE =
     (fst (retry_loop apiCall retries d (Suc i) (Some e)),
      Invoke i # Wait (d * 2 ^ i) # snd (retry_loop apiCall retries d (Suc i) (Some e)))"
  using assms by (subst retry_loop.simps) (simp add: Let_def)

lemma retry_loop_fatal:
  assumes "i < retries" and "apiCall i = Inl e" and "\<not> isRateLimitError e"
  shows "retry_loop apiCall retries d i lastE = (Inl e, [Invoke i])"
  using assms by (subst retry_loop.simps) simp

lemma retry_loop_success:
  assumes "i < retries" and "apiCall i = Inr v"
  shows "retry_loop apiCall retries d i lastE = (Inr v, [Invoke i])"
  using assms by (subst retry_loop.simps) simp

lemma retry_loop_exhausted:
  "retry_loop apiCall retries d retries lastE = (Inl (exhaustedError retries lastE), [])"
  by (subst retry_loop.simps) simp

text \<open>\<open>k\<close> consecutive rate-limited attempts from attempt \<open>i\<close> on leave the loop at attempt \<open>i + k\<close>.\<close>

lemma retry_loop_backoff:
  assumes "\<forall>j. i \<le> j \<and> j < i + k \<longrightarrow> (\<exists>e. apiCall j = Inl e \<and> isRateLimitError e)"
    and "i + k \<le> retries" and "0 < k"
  shows "retry_loop apiCall retries d i lastE =
     (fst (retry_loop apiCall retries d (i + k) (Some (projl (apiCall (i + k - 1))))),
      backoff d i k @ snd (retry_loop apiCall retries d (i + k) (Some (projl (apiCall (i + k - 1))))))"
  using assms
proof (induction k arbitrary: i lastE)
  case 0
  then show ?case by simp
next
  case (Suc k)
  have "i \<le> i \<and> i < i + Suc k" by simp
  with Suc.prems(1) obtain e where e: "apiCall i = Inl e" "isRateLimitError e"
    by blast
  have step: "retry_loop apiCall retries d i lastE =
     (fst (retry_loop apiCall retries d (Suc i) (Some e)),
      Invoke i # Wait (d * 2 ^ i) # snd (retry_loop apiCall retries d (Suc i) (Some e)))"
    using Suc.prems e by (intro retry_loop_retryable) auto
  show ?case
  proof (cases k)
    case 0
    then show ?thesis using step e by simp
  next
    case (Suc k')
    have "retry_loop apiCall retries d (Suc i) (Some e) =
     (fst (retry_loop apiCall retries d (Suc i + k) (Some (projl (apiCall (Suc i + k - 1))))),
      backoff d (Suc i) k @
      snd (retry_loop apiCall retries d (Suc i + k) (Some (projl (apiCall (Suc i + k - 1))))))"
      using Suc.prems Suc by (intro Suc.IH) auto
    then show ?thesis using step by simp
  qed
qed

lemma invocations_append: "invocations (s @ t) = invocations s + invocations t"
  by (induction s rule: invocations.induct) auto

lemma waits_append: "waits (s @ t) = waits s @ waits t"
  by (induction s rule: waits.induct) auto

lemma invocations_backoff: "invocations (backoff d i k) = k"
  by (induction k arbitrary: i) auto

lemma waits_backoff: "waits (backoff d i k) = map (\<lambda>j. d * 2 ^ j) [i..<i + k]"
  by (induction k arbitrary: i) (auto simp: upt_rec)

lemma sum_list_backoff_waits:
  "sum_list (map (\<lambda>j. d * 2 ^ j) [0..<k]) = (d::nat) * (\<Sum>j<k. 2 ^ j)"
  by (induction k) (auto simp: algebra_simps)

lemma sum_pow2: "(\<Sum>j<k. (2::nat) ^ j) = 2 ^ k - 1"
  by (induction k) auto

lemma backoff_snoc:
  "backoff d i (Suc k) = backoff d i k @ [Invoke (i + k), Wait (d * 2 ^ (i + k))]"
proof (induction k arbitrary: i)
  case 0
  show ?case by simp
next
  case (Suc k)
  have "backoff d i (Suc (Suc k)) = Invoke i # Wait (d * 2 ^ i) # backoff d (Suc i) (Suc k)"
    by (rule backoff.simps(2))
  also have "backoff d (Suc i) (Suc k)
      = backoff d (Suc i) k @ [Invoke (Suc i + k), Wait (d * 2 ^ (Suc i + k))]"
    by (rule Suc.IH)
  also have "Invoke i # Wait (d * 2 ^ i) #
       backoff d (Suc i) k @ [Invoke (Suc i + k), Wait (d * 2 ^ (Suc i + k))]
      = backoff d i (Suc k) @ [Invoke (i + Suc k), Wait (d * 2 ^ (i + Suc k))]"
    by simp
  finally show ?case .
qed

lemma last_backoff: "last (backoff d i (Suc k)) = Wait (d * 2 ^ (i + k))"
  by (simp only: backoff_snoc last_appendR last.simps) simp

lemma retry_loop_begins:
  assumes "i < retries"
  shows "\<exists>t. snd (retry_loop apiCall retries d i lastE) = Invoke i # t"
  using assms by (subst retry_loop.simps) (simp add: Let_def split: sum.splits)

lemma retry_run_prefix:
  assumes "\<forall>j<i. \<exists>e. apiCall j = Inl e \<and> isRateLimitError e"
    and "i \<le> retries"
  shows "\<exists>lastE. retryableAIOperation apiCall retries d =
           (fst (retry_loop apiCall retries d i lastE),
            backoff d 0 i @ snd (retry_loop apiCall retries d i lastE))"
proof (cases i)
  case 0
  then show ?thesis by (auto simp: retryableAIOperation_def)
next
  case (Suc i')
  have "retry_loop apiCall retries d 0 None =
       (fst (retry_loop apiCall retries d (0 + i) (Some (projl (apiCall (0 + i - 1))))),
        backoff d 0 i @
        snd (retry_loop apiCall retries d (0 + i) (Some (projl (apiCall (0 + i - 1))))))"
    using assms Suc by (intro retry_loop_backoff) auto
  then show ?thesis by (auto simp: retryableAIOperation_def)
qed

lemma retry_run_success:
  assumes "k < retries"
    and "\<forall>i<k. \<exists>e. apiCall i = Inl e \<and> isRateLimitError e"
    and "apiCall k = Inr v"
  shows "retryableAIOperation apiCall retries d = (Inr v, backoff d 0 k @ [Invoke k])"
proof -
  obtain lastE where "retryableAIOperation apiCall retries d =
           (fst (retry_loop apiCall retries d k lastE),
            backoff d 0 k @ snd (retry_loop apiCall retries d k lastE))"
    using retry_run_prefix[OF assms(2), of retries d] assms(1) by auto
  then show ?thesis using assms by (simp add: retry_loop_success)
qed

subsection \<open>Classification of failures\<close>

text \<open>
  Claim C3 as the specification states it counts a request timeout among the retryable
  failures. The code does not: the error \<open>fetchWithTimeout\<close> raises when its 20 second
  timer aborts the request carries the message \<open>Request timed out after 20 seconds.\<close>,
  which \<open>isRateLimitError\<close> rejects, so \<open>retryableAIOperation\<close> rethrows it after a single
  invocation and without any wait.
\<close>

theorem timeout_not_retried:
  "retryableAIOperation (timing_out 20000) 2 500
     = (Inl (Error ''Request timed out after 20 seconds.''), [Invoke 0])"
  by (simp add: retryableAIOperation_def retry_loop.simps timing_out_def
      show_millis_as_seconds_def show_nat.simps digit_char_def isRateLimitError_def)

text \<open>
  Claim C3, amended. The failure of any attempt the loop reaches (attempt \<open>i\<close>, all
  earlier attempts having failed with rate-limit errors) is retryable exactly when it is a
  \<open>FetchError\<close> with status 429 or its message text contains \<open>429\<close> or
  \<open>RESOURCE_EXHAUSTED\<close>. A retryable failure is followed by a wait of
  \<open>initialDelay * 2 ^ i\<close> and then by the next invocation, or by the exhaustion error when
  it was the last attempt allowed. Every other failure is rethrown at once: the failing
  invocation is the last event of the run, no wait follows it, and for the first attempt
  that is exactly one invocation. A timeout raised by \<open>fetchWithTimeout\<close> belongs to the
  second kind, unless the number of seconds printed in its message happens to contain the
  digits \<open>429\<close>.
\<close>

theorem retry_classification:
  assumes "i < retries"
    and "\<forall>j<i. \<exists>e. apiCall j = Inl e \<and> isRateLimitError e"
    and "apiCall i = Inl error"
  shows "(isRateLimitError error \<longleftrightarrow>
            (\<exists>m. error = FetchError m 429)
            \<or> js_includes (errorMessage error) ''429''
            \<or> js_includes (errorMessage error) ''RESOURCE_EXHAUSTED'')
       \<and> (\<not> isRateLimitError error \<longrightarrow>
            retryableAIOperation apiCall retries initialDelay
              = (Inl error, backoff initialDelay 0 i @ [Invoke i]))
       \<and> (isRateLimitError error \<longrightarrow>
            (\<exists>r t. retryableAIOperation apiCall retries initialDelay
                     = (r, backoff initialDelay 0 i @ Invoke i # Wait (initialDelay * 2 ^ i) # t)
                  \<and> (r, t) = retry_loop apiCall retries initialDelay (Suc i) (Some error)
                  \<and> (Suc i < retries \<longrightarrow> (\<exists>t'. t = Invoke (Suc i) # t'))
                  \<and> (Suc i = retries \<longrightarrow>
                       r = Inl (exhaustedError retries (Some error)) \<and> t = [])))
       \<and> (\<forall>timeout < 2 ^ 31.
            fetchWithTimeout timeout (AbortError :: 'r fetch_outcome) = Inl error \<longrightarrow>
            (isRateLimitError error \<longleftrightarrow> js_includes (show_millis_as_seconds timeout) ''429''))"
proof -
  obtain lastE where run: "retryableAIOperation apiCall retries initialDelay =
           (fst (retry_loop apiCall retries initialDelay i lastE),
            backoff initialDelay 0 i @ snd (retry_loop apiCall retries initialDelay i lastE))"
    using retry_run_prefix[OF assms(2), of retries initialDelay] assms(1) by auto
  have c: "isRateLimitError error \<longleftrightarrow>
            (\<exists>m. error = FetchError m 429)
            \<or> js_includes (errorMessage error) ''429''
            \<or> js_includes (errorMessage error) ''RESOURCE_EXHAUSTED''"
    unfolding isRateLimitError_def by (cases error) auto
  have f: "\<not> isRateLimitError error \<longrightarrow>
            retryableAIOperation apiCall retries initialDelay
              = (Inl error, backoff initialDelay 0 i @ [Invoke i])"
    using assms run by (simp add: retry_loop_fatal)
  have r: "isRateLimitError error \<longrightarrow>
            (\<exists>r t. retryableAIOperation apiCall retries initialDelay
                     = (r, backoff initialDelay 0 i @ Invoke i # Wait (initialDelay * 2 ^ i) # t)
                  \<and> (r, t) = retry_loop apiCall retries initialDelay (Suc i) (Some error)
                  \<and> (Suc i < retries \<longrightarrow> (\<exists>t'. t = Invoke (Suc i) # t'))
                  \<and> (Suc i = retries \<longrightarrow>
                       r = Inl (exhaustedError retries (Some error)) \<and> t = []))"
  proof
    assume rl: "isRateLimitError error"
    let ?rest = "retry_loop apiCall retries initialDelay (Suc i) (Some error)"
    have step: "retry_loop apiCall retries initialDelay i lastE =
       (fst ?rest, Invoke i # Wait (initialDelay * 2 ^ i) # snd ?rest)"
      using assms(1,3) rl by (rule retry_loop_retryable)
    have a: "retryableAIOperation apiCall retries initialDelay
               = (fst ?rest, backoff initialDelay 0 i @ Invoke i # Wait (initialDelay * 2 ^ i) # snd ?rest)"
      using run step by simp
    have b: "Suc i < retries \<longrightarrow> (\<exists>t'. snd ?rest = Invoke (Suc i) # t')"
      using retry_loop_begins[of "Suc i" retries apiCall initialDelay "Some error"] by blast
    have e: "Suc i = retries \<longrightarrow>
               fst ?rest = Inl (exhaustedError retries (Some error)) \<and> snd ?rest = []"
      using retry_loop_exhausted[of apiCall retries initialDelay "Some error"] by auto
    show "\<exists>r t. retryableAIOperation apiCall retries initialDelay
                     = (r, backoff initialDelay 0 i @ Invoke i # Wait (initialDelay * 2 ^ i) # t)
                  \<and> (r, t) = retry_loop apiCall retries initialDelay (Suc i) (Some error)
                  \<and> (Suc i < retries \<longrightarrow> (\<exists>t'. t = Invoke (Suc i) # t'))
                  \<and> (Suc i = retries \<longrightarrow>
                       r = Inl (exhaustedError retries (Some error)) \<and> t = [])"
      using a b e by (intro exI[of _ "fst ?rest"] exI[of _ "snd ?rest"]) simp
  qed
  have t: "\<forall>timeout < 2 ^ 31.
            fetchWithTimeout timeout (AbortError :: 'r fetch_outcome) = Inl error \<longrightarrow>
            (isRateLimitError error \<longleftrightarrow> js_includes (show_millis_as_seconds timeout) ''429'')"
    using timeout_isRateLimitError by auto
  show ?thesis using c r f t by blast
qed

theorem retry_classification_witness:
  "\<not> isRateLimitError (Error ''Request timed out after 90 seconds.'')
   \<and> retryableAIOperation throttled_then_timeout 3 2000
      = (Inl (Error ''Request timed out after 90 seconds.''), [Invoke 0, Wait 2000, Invoke 1])"
proof -
  have m: "show_millis_as_seconds 90000 = ''90''"
    by (simp add: show_millis_as_seconds_def show_nat.simps digit_char_def)
  have h1: "(1::nat) < 3" by simp
  have h2: "\<forall>j<1. \<exists>e. throttled_then_timeout j = Inl e \<and> isRateLimitError e"
    by (simp add: throttled_then_timeout_def isRateLimitError_def)
  have h3: "throttled_then_timeout 1 = Inl (Error ''Request timed out after 90 seconds.'')"
    by (simp add: throttled_then_timeout_def m)
  have n: "\<not> isRateLimitError (Error ''Request timed out after 90 seconds.'')"
    by (simp add: isRateLimitError_def)
  have b: "backoff 2000 0 1 = [Invoke 0, Wait 2000]" by simp
  from retry_classification[where apiCall = throttled_then_timeout and retries = 3
      and initialDelay = 2000 and i = 1, OF h1 h2 h3] n b
  show ?thesis by simp
qed

subsection \<open>Success after throttling\<close>

text \<open>
  Claim C4. If the first \<open>k\<close> invocations fail with a rate-limit error, \<open>k < retries\<close>, and
  invocation \<open>k\<close> succeeds, then the retrier returns that result; its trace is
  invocation 0, wait \<open>initialDelay\<close>, invocation 1, wait \<open>2 * initialDelay\<close>, and so on up to
  invocation \<open>k\<close>, one after the other. The operation is invoked \<open>k + 1\<close> times, the \<open>i\<close>-th
  wait is \<open>initialDelay * 2 ^ i\<close>, and the waits add up to
  \<open>initialDelay * (2 ^ 0 + \<dots> + 2 ^ (k - 1))\<close>.
\<close>

theorem retry_succeeds_after_k_failures:
  assumes "k < retries"
    and "\<forall>i<k. \<exists>e. apiCall i = Inl e \<and> isRateLimitError e"
    and "apiCall k = Inr v"
  shows "retryableAIOperation apiCall retries initialDelay
           = (Inr v, backoff initialDelay 0 k @ [Invoke k])
       \<and> invocations (snd (retryableAIOperation apiCall retries initialDelay)) = k + 1
       \<and> waits (snd (retryableAIOperation apiCall retries initialDelay))
           = map (\<lambda>i. initialDelay * 2 ^ i) [0..<k]
       \<and> sum_list (waits (snd (retryableAIOperation apiCall retries initialDelay)))
           = initialDelay * (\<Sum>i<k. 2 ^ i)
       \<and> initialDelay * (\<Sum>i<k. 2 ^ i) = initialDelay * (2 ^ k - 1)"
proof -
  have run: "retryableAIOperation apiCall retries initialDelay
               = (Inr v, backoff initialDelay 0 k @ [Invoke k])"
  proof (cases k)
    case 0
    then show ?thesis using assms by (simp add: retryableAIOperation_def retry_loop_success)
  next
    case (Suc k')
    have "retry_loop apiCall retries initialDelay 0 None =
       (fst (retry_loop apiCall retries initialDelay (0 + k) (Some (projl (apiCall (0 + k - 1))))),
        backoff initialDelay 0 k @
        snd (retry_loop apiCall retries initialDelay (0 + k) (Some (projl (apiCall (0 + k - 1))))))"
      using assms Suc by (intro retry_loop_backoff) auto
    then show ?thesis using assms by (simp add: retryableAIOperation_def retry_loop_success)
  qed
  show ?thesis
    by (simp add: run invocations_append invocations_backoff waits_append waits_backoff
        sum_list_backoff_waits sum_pow2)
qed

theorem retry_succeeds_after_k_failures_witness:
  "retryableAIOperation throttled_twice 3 2000
   = (Inr ''1'', [Invoke 0, Wait 2000, Invoke 1, Wait 4000, Invoke 2])"
proof -
  have h1: "(2::nat) < 3" by simp
  have h2: "\<forall>i<2. \<exists>e. throttled_twice i = Inl e \<and> isRateLimitError e"
    by (simp add: throttled_twice_def isRateLimitError_def)
  have h3: "throttled_twice 2 = Inr ''1''" by (simp add: throttled_twice_def)
  have b: "backoff 2000 0 2 = [Invoke 0, Wait 2000, Invoke 1, Wait 4000]"
    by (simp add: numeral_2_eq_2)
  from retry_succeeds_after_k_failures[OF h1 h2 h3, of 2000] show ?thesis
    by (simp add: b)
qed

subsection \<open>Exhaustion\<close>

text \<open>
  Claim C10. When all \<open>retries\<close> invocations fail with a rate-limit error, the retrier
  waits after every one of them, the last included: the trace ends with the wait
  \<open>initialDelay * 2 ^ (retries - 1)\<close>, there are \<open>retries\<close> waits (one more than there are
  re-attempts) adding up to \<open>initialDelay * (2 ^ 0 + \<dots> + 2 ^ (retries - 1))\<close>, and only
  then the wrapping error is thrown, with the message of the last cause.
\<close>

theorem retry_exhausted:
  assumes "0 < retries"
    and "\<forall>i<retries. \<exists>e. apiCall i = Inl e \<and> isRateLimitError e"
    and "apiCall (retries - 1) = Inl cause"
  shows "retryableAIOperation apiCall retries initialDelay =
           (Inl (Error (''AI request failed after '' @ show_nat retries
                        @ '' attempts. Last error: '' @ errorMessage cause)),
            backoff initialDelay 0 retries)
       \<and> invocations (snd (retryableAIOperation apiCall retries initialDelay)) = retries
       \<and> waits (snd (retryableAIOperation apiCall retries initialDelay))
           = map (\<lambda>i. initialDelay * 2 ^ i) [0..<retries]
       \<and> last (snd (retryableAIOperation apiCall retries initialDelay))
           = Wait (initialDelay * 2 ^ (retries - 1))
       \<and> sum_list (waits (snd (retryableAIOperation apiCall retries initialDelay)))
           = initialDelay * (\<Sum>i<retries. 2 ^ i)
       \<and> initialDelay * (\<Sum>i<retries. 2 ^ i) = initialDelay * (2 ^ retries - 1)
       \<and> length (waits (snd (retryableAIOperation apiCall retries initialDelay)))
           = (retries - 1) + 1"
proof -
  have "retry_loop apiCall retries initialDelay 0 None =
       (fst (retry_loop apiCall retries initialDelay (0 + retries)
               (Some (projl (apiCall (0 + retries - 1))))),
        backoff initialDelay 0 retries @
        snd (retry_loop apiCall retries initialDelay (0 + retries)
               (Some (projl (apiCall (0 + retries - 1))))))"
    using assms by (intro retry_loop_backoff) auto
  then have run: "retryableAIOperation apiCall retries initialDelay =
           (Inl (Error (''AI request failed after '' @ show_nat retries
                        @ '' attempts. Last error: '' @ errorMessage cause)),
            backoff initialDelay 0 retries)"
    using assms by (simp add: retryableAIOperation_def retry_loop_exhausted exhaustedError_def)
  obtain r where r: "retries = Suc r" using assms(1) by (cases retries) auto
  have l: "last (backoff initialDelay 0 retries) = Wait (initialDelay * 2 ^ (retries - 1))"
    unfolding r by (simp only: last_backoff) simp
  show ?thesis using assms(1)
    by (simp add: run l invocations_backoff waits_backoff sum_list_backoff_waits sum_pow2
        del: backoff.simps)
qed

theorem retry_exhausted_witness:
  "retryableAIOperation always_exhausted 2 500
   = (Inl (Error ''AI request failed after 2 attempts. Last error: RESOURCE_EXHAUSTED''),
      [Invoke 0, Wait 500, Invoke 1, Wait 1000])"
proof -
  have h1: "(0::nat) < 2" by simp
  have h2: "\<forall>i<2. \<exists>e. always_exhausted i = Inl e \<and> isRateLimitError e"
    by (simp add: always_exhausted_def isRateLimitError_def)
  have h3: "always_exhausted (2 - 1) = Inl (Error ''RESOURCE_EXHAUSTED'')"
    by (simp add: always_exhausted_def)
  have b: "backoff 500 0 2 = [Invoke 0, Wait 500, Invoke 1, Wait 1000]"
    by (simp add: numeral_2_eq_2)
  have s: "show_nat 2 = ''2''" by (simp add: show_nat.simps digit_char_def)
  from retry_exhausted[OF h1 h2 h3, of 500] show ?thesis
    by (simp add: b s)
qed

section \<open>Properties of the scheduler\<close>

lemma launch_exact: "counter_exact s \<Longrightarrow> may_launch s \<Longrightarrow> counter_exact (launch s)"
  by (auto simp: counter_exact_def may_launch_def launch_def)

lemma tryNext_loop_exact: "counter_exact s \<Longrightarrow> counter_exact (tryNext_loop s)"
proof (induction s rule: tryNext_loop.induct)
  case (1 s)
  show ?case
  proof (cases "may_launch s")
    case True
    then have "counter_exact (tryNext_loop (launch s))" using 1 launch_exact by blast
    then show ?thesis using True by (subst tryNext_loop.simps) simp
  next
    case False
    then show ?thesis using 1 by (subst tryNext_loop.simps) simp
  qed
qed

lemma loop_instants_exact: "counter_exact s \<Longrightarrow> \<forall>t \<in> set (loop_instants s). counter_exact t"
proof (induction s rule: loop_instants.induct)
  case (1 s)
  show ?case
  proof (cases "may_launch s")
    case True
    then have "\<forall>t \<in> set (loop_instants (launch s)). counter_exact t" using 1 launch_exact by blast
    then show ?thesis using True 1(2) by (subst loop_instants.simps) simp
  next
    case False
    then show ?thesis using 1 by (subst loop_instants.simps) simp
  qed
qed

lemma tryNext_exact: "counter_exact s \<Longrightarrow> counter_exact (tryNext s)"
  using tryNext_loop_exact[of s] by (auto simp: tryNext_def Let_def counter_exact_def)

lemma exact_isProcessing [simp]: "counter_exact (s\<lparr>isProcessing := b\<rparr>) = counter_exact s"
  by (simp add: counter_exact_def)

lemma exact_jobQueue [simp]: "counter_exact (s\<lparr>jobQueue := q\<rparr>) = counter_exact s"
  by (simp add: counter_exact_def)

lemma settle_exact:
  assumes "counter_exact s" and "n < length (running s)"
  shows "counter_exact (s\<lparr>activeCount := activeCount s - 1,
                running := take n (running s) @ drop (Suc n) (running s)\<rparr>)"
  using assms by (auto simp: counter_exact_def)

lemma step_exact: "counter_exact s \<Longrightarrow> a \<noteq> Clear \<Longrightarrow> counter_exact (step s a)"
  by (cases a) (auto simp: addJobsToQueue_def drainQueue_def jobSettled_def
      intro!: tryNext_exact settle_exact)

lemma instants_exact:
  "counter_exact s \<Longrightarrow> a \<noteq> Clear \<Longrightarrow> \<forall>t \<in> set (instants s a). counter_exact t"
proof (cases a)
  case (Enqueue jobs)
  assume "counter_exact s"
  then show ?thesis using Enqueue
      loop_instants_exact[of "s\<lparr>jobQueue := jobQueue s @ jobs, isProcessing := True\<rparr>"]
      tryNext_exact[of "s\<lparr>jobQueue := jobQueue s @ jobs, isProcessing := True\<rparr>"]
    by (auto simp: Let_def)
next
  case (Settle n)
  assume "counter_exact s"
  then show ?thesis using Settle
      loop_instants_exact[OF settle_exact[of s n]] tryNext_exact[OF settle_exact[of s n]]
    by (auto simp: Let_def)
next
  case Clear
  assume "a \<noteq> Clear"
  then show ?thesis using Clear by simp
qed

lemma all_instants_exact:
  "counter_exact s \<Longrightarrow> Clear \<notin> set acts \<Longrightarrow> \<forall>t \<in> set (all_instants s acts). counter_exact t"
proof (induction acts arbitrary: s)
  case Nil
  then show ?case by simp
next
  case (Cons a acts)
  then have a: "a \<noteq> Clear" by auto
  have "counter_exact (step s a)" using Cons.prems(1) a by (rule step_exact)
  then have "\<forall>t \<in> set (all_instants (step s a) acts). counter_exact t"
    using Cons by auto
  then show ?case using Cons.prems(1) instants_exact[OF Cons.prems(1) a] by auto
qed

lemma initial_exact: "counter_exact initial"
  by (simp add: counter_exact_def initial_def MAX_CONCURRENT_JOBS_def)

lemma last_loop_instants: "last (loop_instants s) = tryNext_loop s"
proof (induction s rule: loop_instants.induct)
  case (1 s)
  show ?case
  proof (cases "may_launch s")
    case True
    have ne: "loop_instants (launch s) \<noteq> []" by (subst loop_instants.simps) simp
    show ?thesis using True 1 ne
      by (subst loop_instants.simps, subst tryNext_loop.simps) simp
  next
    case False
    then show ?thesis by (subst loop_instants.simps, subst tryNext_loop.simps) simp
  qed
qed

lemma last_instants: "last (instants s a) = step s a"
  by (cases a) (auto simp: addJobsToQueue_def drainQueue_def jobSettled_def Let_def)

lemma last_all_instants: "last (all_instants s acts) = run s acts"
proof (induction acts arbitrary: s)
  case Nil
  then show ?case by (simp add: run_def)
next
  case (Cons a acts)
  have "all_instants (step s a) acts \<noteq> []" by (cases acts) auto
  then show ?case using Cons by (simp add: run_def)
qed

text \<open>
  Claim C1. Starting from the initial refs, along every sequence of enqueue calls and job
  completions that contains no clear, at every instant (the states inside the \<open>while\<close>
  loop included) \<open>activeCountRef.current\<close> is at most \<open>MAX_CONCURRENT_JOBS = 3\<close>, and it is
  exactly the number of jobs started and not yet completed.
\<close>

theorem active_count_bounded:
  assumes "Clear \<notin> set acts"
  shows "\<forall>s \<in> set (all_instants initial acts).
           activeCount s \<le> MAX_CONCURRENT_JOBS
           \<and> activeCount s = int (length (running s))
           \<and> MAX_CONCURRENT_JOBS = 3"
  using all_instants_exact[OF initial_exact assms]
  by (auto simp: counter_exact_def MAX_CONCURRENT_JOBS_def)

theorem active_count_bounded_witness:
  "Clear \<notin> set enqueue_25
   \<and> list_all (\<lambda>s. activeCount s \<le> 3 \<and> length (running s) \<le> 3)
        (all_instants initial enqueue_25)
   \<and> running (run initial enqueue_25) = [4, 5, 6]
   \<and> jobQueue (run initial enqueue_25) = [7..<25] @ [25, 26]"
proof -
  have h: "Clear \<notin> set enqueue_25" by (simp add: enqueue_25_def)
  have r: "running (run initial enqueue_25) = [4, 5, 6]
           \<and> jobQueue (run initial enqueue_25) = [7..<25] @ [25, 26]"
    by code_simp
  from active_count_bounded[OF h] h r show ?thesis by (auto simp: list_all_iff)
qed

text \<open>
  Claim C2 fails on the code. \<open>handleClearCompleted\<close> sets the counter to zero although
  the jobs already started keep running and their \<open>finally\<close> callbacks still decrement
  it. With three jobs running, a clear followed by one completion leaves the queue empty
  but the counter at \<open>-1\<close>; a clear followed by an enqueue of three more jobs starts all
  three, so that six jobs run at once while the counter shows three.
\<close>

theorem clear_while_running_breaks_counter:
  "jobQueue (run initial clear_then_settle) = []
   \<and> activeCount (run initial clear_then_settle) = - 1
   \<and> running (run initial clear_then_settle) = [2, 3]
   \<and> activeCount (run initial clear_then_enqueue) = 3
   \<and> running (run initial clear_then_enqueue) = [1, 2, 3, 4, 5, 6]"
  by code_simp

section \<open>Properties of the batch function\<close>

lemma slices_from_Nil: "slices_from posts i = [] \<longleftrightarrow> \<not> i < length posts"
  by (subst slices_from.simps) simp

lemma between_Cons: "between d (x # xs) = x # (if xs = [] then [] else d # between d xs)"
  by (cases xs) auto

lemma plan_append: "plan (s @ t) = plan s @ plan t"
  by (induction s rule: plan.induct) auto

lemma progress_reports_append: "progress_reports (s @ t) = progress_reports s @ progress_reports t"
  by (induction s rule: progress_reports.induct) auto

lemma batch_loop_plan:
  "fst (batch_loop env provider posts i acc) = Inr results \<Longrightarrow>
   plan (snd (batch_loop env provider posts i acc))
     = between (Pause 1000) (map Chunk (slices_from posts i))"
proof (induction env provider posts i acc rule: batch_loop.induct)
  case (1 env provider posts i allResults)
  show ?case
  proof (cases "i < length posts")
    case False
    then show ?thesis
      by (subst batch_loop.simps, subst slices_from.simps) simp
  next
    case True
    let ?batch = "take BATCH_SIZE (drop i posts)"
    let ?attempt = "retryableAIOperation (generateJsonText env i ?batch) 3 2000"
    obtain rs where rs: "batch_try env provider (fst ?attempt) = Inr rs"
      using "1.prems" True
      by (subst (asm) batch_loop.simps) (auto simp: Let_def split: sum.splits)
    let ?rest = "batch_loop env provider posts (i + BATCH_SIZE) (allResults @ rs)"
    have unf: "batch_loop env provider posts i allResults =
       (fst ?rest,
        [PerBatch ?batch (snd ?attempt), Progress (min (i + BATCH_SIZE) (length posts)) (length posts)]
        @ (if i + BATCH_SIZE < length posts then [BatchDelay DELAY_BETWEEN_BATCHES] else [])
        @ snd ?rest)"
      using True rs by (subst batch_loop.simps) (simp add: Let_def)
    have "fst ?rest = Inr results" using "1.prems" unf by simp
    then have IH: "plan (snd ?rest) = between (Pause 1000) (map Chunk (slices_from posts (i + BATCH_SIZE)))"
      using "1.IH"[OF True refl refl rs] by simp
    show ?thesis
    proof (cases "i + 20 < length posts")
      case more: True
      then have "slices_from posts (i + 20) \<noteq> []" by (simp add: slices_from_Nil)
      then show ?thesis using True IH more
        by (subst slices_from.simps)
           (simp add: unf plan_append between_Cons BATCH_SIZE_def DELAY_BETWEEN_BATCHES_def)
    next
      case fin: False
      then have "slices_from posts (i + 20) = []" by (simp add: slices_from_Nil)
      then show ?thesis using True IH fin
        by (subst slices_from.simps)
           (simp add: unf plan_append between_Cons BATCH_SIZE_def DELAY_BETWEEN_BATCHES_def)
    qed
  qed
qed

lemma batch_loop_progress:
  "fst (batch_loop env provider posts i acc) = Inr results \<Longrightarrow> i < length posts \<Longrightarrow>
   progress_reports (snd (batch_loop env provider posts i acc)) \<noteq> [] \<and>
   last (progress_reports (snd (batch_loop env provider posts i acc))) = (length posts, length posts)"
proof (induction env provider posts i acc rule: batch_loop.induct)
  case (1 env provider posts i allResults)
  have True: "i < length posts" by (rule "1.prems"(2))
  let ?batch = "take BATCH_SIZE (drop i posts)"
  let ?attempt = "retryableAIOperation (generateJsonText env i ?batch) 3 2000"
  obtain rs where rs: "batch_try env provider (fst ?attempt) = Inr rs"
    using "1.prems" True
    by (subst (asm) batch_loop.simps) (auto simp: Let_def split: sum.splits)
  let ?rest = "batch_loop env provider posts (i + BATCH_SIZE) (allResults @ rs)"
  have unf: "batch_loop env provider posts i allResults =
     (fst ?rest,
      [PerBatch ?batch (snd ?attempt), Progress (min (i + BATCH_SIZE) (length posts)) (length posts)]
      @ (if i + BATCH_SIZE < length posts then [BatchDelay DELAY_BETWEEN_BATCHES] else [])
      @ snd ?rest)"
    using True rs by (subst batch_loop.simps) (simp add: Let_def)
  have ok: "fst ?rest = Inr results" using "1.prems" unf by simp
  show ?case
  proof (cases "i + BATCH_SIZE < length posts")
    case more: True
    have "progress_reports (snd ?rest) \<noteq> [] \<and>
          last (progress_reports (snd ?rest)) = (length posts, length posts)"
      using "1.IH"[OF True refl refl rs ok] more by simp
    then show ?thesis using more by (simp add: unf progress_reports_append)
  next
    case fin: False
    have "snd ?rest = []" using fin by (subst batch_loop.simps) simp
    then show ?thesis using fin by (simp add: unf progress_reports_append)
  qed
qed

lemma slices_from_eq:
  "slices_from posts (20 * k) = map (\<lambda>j. take 20 (drop (20 * j) posts)) [k..<(length posts + 19) div 20]"
proof (induction posts "20 * k" arbitrary: k rule: slices_from.induct)
  case (1 posts)
  show ?case
  proof (cases "20 * k < length posts")
    case True
    then have k: "k < (length posts + 19) div 20" by arith
    have "slices_from posts (20 * k + 20) = map (\<lambda>j. take 20 (drop (20 * j) posts)) [Suc k..<(length posts + 19) div 20]"
      using 1[OF True, of "Suc k"] by (simp add: algebra_simps)
    then show ?thesis using True k
      by (subst slices_from.simps) (simp add: upt_conv_Cons)
  next
    case False
    then have "\<not> k < (length posts + 19) div 20" by arith
    then show ?thesis using False by (subst slices_from.simps) simp
  qed
qed

lemma slices_from_0: "slices_from posts 0 = slices posts"
  using slices_from_eq[of posts 0] by (simp add: slices_def)

lemma concat_slices_from: "concat (slices_from posts i) = drop i posts"
proof (induction posts i rule: slices_from.induct)
  case (1 posts i)
  show ?case
  proof (cases "i < length posts")
    case True
    have "take 20 (drop i posts) @ drop (i + 20) posts = drop i posts"
      by (metis add.commute append_take_drop_id drop_drop)
    then show ?thesis using True 1 by (subst slices_from.simps) simp
  next
    case False
    then show ?thesis by (subst slices_from.simps) simp
  qed
qed

lemma slices_lengths:
  "k < (length posts + 19) div 20 \<Longrightarrow>
   length (slices posts ! k) = (if Suc k < (length posts + 19) div 20 then 20 else length posts - 20 * k)
   \<and> 0 < length (slices posts ! k) \<and> length (slices posts ! k) \<le> 20"
  unfolding slices_def by (auto simp: min_def)

lemma batch_loop_resolves:
  assumes "\<forall>j. k \<le> j \<and> j < (length posts + 19) div 20 \<longrightarrow> batch_outcome env provider posts j = Inr (rs j)"
  shows "fst (batch_loop env provider posts (20 * k) acc)
           = Inr (acc @ concat (map rs [k..<(length posts + 19) div 20]))"
  using assms
proof (induction "(length posts + 19) div 20 - k" arbitrary: k acc)
  case 0
  then have "\<not> 20 * k < length posts" by arith
  moreover have "[k..<(length posts + 19) div 20] = []" using 0 by simp
  ultimately show ?case by (subst batch_loop.simps) simp
next
  case (Suc d)
  then have k: "k < (length posts + 19) div 20" by arith
  then have lt: "20 * k < length posts" by arith
  have out: "batch_outcome env provider posts k = Inr (rs k)" using Suc.prems k by simp
  have "fst (batch_loop env provider posts (20 * Suc k) (acc @ rs k))
           = Inr ((acc @ rs k) @ concat (map rs [Suc k..<(length posts + 19) div 20]))"
    using Suc.hyps Suc.prems by (intro Suc.hyps(1)) auto
  then show ?case using lt out k
    by (subst batch_loop.simps)
       (simp add: Let_def batch_outcome_def BATCH_SIZE_def upt_conv_Cons add.commute)
qed

text \<open>
  A slice that fails aborts the call: the error leaves through the \<open>catch\<close> clause, the
  slices after it are never requested, and nothing is awaited after the failing request.
\<close>

lemma batch_loop_aborts:
  assumes "\<forall>j. k \<le> j \<and> j < f \<longrightarrow> batch_outcome env provider posts j = Inr (rs j)"
    and "batch_outcome env provider posts f = Inl e"
    and "k \<le> f" and "f < (length posts + 19) div 20"
  shows "fst (batch_loop env provider posts (20 * k) acc) = Inl (batch_catch provider e)
       \<and> plan (snd (batch_loop env provider posts (20 * k) acc))
           = between (Pause 1000) (map (\<lambda>j. Chunk (take 20 (drop (20 * j) posts))) [k..<Suc f])"
  using assms
proof (induction "f - k" arbitrary: k acc)
  case 0
  then have kf: "k = f" by simp
  have lt: "20 * f < length posts" using "0.prems"(4) by arith
  show ?case using lt "0.prems"(2) unfolding kf
    by (subst (1 2) batch_loop.simps)
       (simp add: Let_def batch_outcome_def BATCH_SIZE_def)
next
  case (Suc d)
  then have k: "k < f" by arith
  then have lt: "20 * k < length posts" and more: "20 * k + 20 < length posts"
    using Suc.prems(4) by arith+
  have out: "batch_outcome env provider posts k = Inr (rs k)" using Suc.prems(1) k by simp
  have IH: "fst (batch_loop env provider posts (20 * Suc k) (acc @ rs k)) = Inl (batch_catch provider e)
       \<and> plan (snd (batch_loop env provider posts (20 * Suc k) (acc @ rs k)))
           = between (Pause 1000) (map (\<lambda>j. Chunk (take 20 (drop (20 * j) posts))) [Suc k..<Suc f])"
    using Suc.hyps Suc.prems k by (intro Suc.hyps(1)) auto
  have ne: "[Suc k..<Suc f] \<noteq> []" using k by simp
  have up: "[k..<Suc f] = k # [Suc k..<Suc f]" using k by (simp add: upt_conv_Cons)
  show ?case using lt more out IH ne unfolding up
    by (subst (1 2) batch_loop.simps)
       (simp add: Let_def batch_outcome_def BATCH_SIZE_def DELAY_BETWEEN_BATCHES_def
          add.commute between_Cons plan_append)
qed

lemma batch_aborts_at_first_failure:
  assumes "\<forall>j < f. batch_outcome env provider posts j = Inr (rs j)"
    and "batch_outcome env provider posts f = Inl e"
    and "f < (length posts + 19) div 20"
  shows "fst (generateImageBriefsAndAltsBatch env provider posts) = Inl (batch_catch provider e)
       \<and> plan (snd (generateImageBriefsAndAltsBatch env provider posts))
           = between (Pause 1000) (map Chunk (take (Suc f) (slices posts)))"
proof -
  have "take (Suc f) (slices posts) = map (\<lambda>j. take 20 (drop (20 * j) posts)) [0..<Suc f]"
    using assms(3) unfolding slices_def by (simp add: take_map)
  then show ?thesis
    using batch_loop_aborts[of 0 f env provider posts rs e "[]"] assms
    by (simp add: generateImageBriefsAndAltsBatch_def Let_def comp_def)
qed

lemma ai_requests_append: "ai_requests (s @ t) = ai_requests s @ ai_requests t"
  by (induction s rule: ai_requests.induct) auto

lemma batch_loop_requests:
  assumes "\<forall>j. k \<le> j \<and> j < (length posts + 19) div 20 \<longrightarrow>
             batch_outcome env provider posts j = Inr (rs j)
             \<and> invocations (snd (retryableAIOperation
                   (generateJsonText env (20 * j) (take 20 (drop (20 * j) posts))) 3 2000)) = a j"
  shows "ai_requests (snd (batch_loop env provider posts (20 * k) acc))
           = concat (map (\<lambda>j. replicate (a j) (take 20 (drop (20 * j) posts)))
                       [k..<(length posts + 19) div 20])"
  using assms
proof (induction "(length posts + 19) div 20 - k" arbitrary: k acc)
  case 0
  then have "\<not> 20 * k < length posts" by arith
  moreover have "[k..<(length posts + 19) div 20] = []" using 0 by simp
  ultimately show ?case by (subst batch_loop.simps) simp
next
  case (Suc d)
  then have k: "k < (length posts + 19) div 20" by arith
  then have lt: "20 * k < length posts" by arith
  have out: "batch_outcome env provider posts k = Inr (rs k)"
    and inv: "invocations (snd (retryableAIOperation
                   (generateJsonText env (20 * k) (take 20 (drop (20 * k) posts))) 3 2000)) = a k"
    using Suc.prems k by simp_all
  have IH: "ai_requests (snd (batch_loop env provider posts (20 * Suc k) (acc @ rs k)))
           = concat (map (\<lambda>j. replicate (a j) (take 20 (drop (20 * j) posts)))
                       [Suc k..<(length posts + 19) div 20])"
    using Suc.hyps Suc.prems by (intro Suc.hyps(1)) auto
  show ?case using lt out inv k IH
    by (subst batch_loop.simps)
       (simp add: Let_def batch_outcome_def BATCH_SIZE_def upt_conv_Cons add.commute
          ai_requests_append)
qed

lemma length_concat_replicate:
  "length (concat (map (\<lambda>j. replicate (a j) (x j)) ks)) = sum_list (map a ks)"
  by (induction ks) auto

lemma concat_replicate_once:
  "\<forall>k \<in> set ks. a k = 1 \<Longrightarrow> concat (map (\<lambda>k. replicate (a k) (x k)) ks) = map x ks"
  by (induction ks) auto

lemma slice_run:
  assumes "t < 3"
    and "\<forall>i < t. \<exists>e. generateJsonText env off batch i = Inl e \<and> isRateLimitError e"
    and "generateJsonText env off batch t = Inr text"
  shows "retryableAIOperation (generateJsonText env off batch) 3 2000
           = (Inr text, backoff 2000 0 t @ [Invoke t])"
  using assms by (intro retry_run_success) auto

text \<open>
  Claim C5 as stated counts \<open>ceil(n / 20)\<close> invocations of the AI operation and a last
  progress report \<open>(n, n)\<close> for every input list. The code does otherwise on two kinds of
  runs. With 25 posts (two slices), when the first request for the first slice is
  throttled, the retrier repeats it and the operation is invoked three times. When the
  first request is refused, the call is aborted after one invocation and the last
  progress report is \<open>(0, 25)\<close>.
\<close>

theorem batch_invocations_not_ceiling:
  "(25 + 19) div 20 = (2::nat)
   \<and> fst (generateImageBriefsAndAltsBatch throttled_first_request ''openai'' [0..<25]) = Inr []
   \<and> length (ai_requests (snd (generateImageBriefsAndAltsBatch throttled_first_request ''openai''
                                  [0..<25]))) = 3
   \<and> length (ai_requests (snd (generateImageBriefsAndAltsBatch refusing_requests ''openai''
                                  [0..<25]))) = 1
   \<and> last (progress_reports (snd (generateImageBriefsAndAltsBatch refusing_requests ''openai''
                                     [0..<25]))) = (0, 25)"
  by code_simp

text \<open>
  Claim C5, amended. On every list of \<open>n\<close> posts, when for each of the
  \<open>ceil(n / 20) = (n + 19) div 20\<close> slices the request is throttled \<open>t k\<close> times
  (\<open>t k < 3\<close>) and then succeeds with a reply that decodes, the call resolves with the
  results of the slices in order; the AI operation is invoked \<open>t k + 1\<close> times for slice
  \<open>k\<close>, slice after slice, which is exactly once per slice, \<open>ceil(n / 20)\<close> invocations
  in all, when no request is throttled; the slices are the consecutive slices of the
  input, each of twenty posts except a shorter, non-empty last one; a delay of 1000 ms is
  awaited between two consecutive slices and nowhere else, so neither before the first
  nor after the last; and the last progress report is \<open>(n, n)\<close>.
\<close>

theorem batch_orchestration:
  assumes "\<forall>k < (length posts + 19) div 20.
             t k < 3
             \<and> (\<forall>i < t k. \<exists>e. generateJsonText env (20 * k) (take 20 (drop (20 * k) posts)) i = Inl e
                              \<and> isRateLimitError e)
             \<and> (\<exists>text. generateJsonText env (20 * k) (take 20 (drop (20 * k) posts)) (t k) = Inr text
                       \<and> batch_try env provider (Inr text) = Inr (rs k))"
  shows "fst (generateImageBriefsAndAltsBatch env provider posts)
           = Inr (concat (map rs [0..<(length posts + 19) div 20]))
       \<and> ai_requests (snd (generateImageBriefsAndAltsBatch env provider posts))
           = concat (map (\<lambda>k. replicate (t k + 1) (take 20 (drop (20 * k) posts)))
                       [0..<(length posts + 19) div 20])
       \<and> length (ai_requests (snd (generateImageBriefsAndAltsBatch env provider posts)))
           = sum_list (map (\<lambda>k. t k + 1) [0..<(length posts + 19) div 20])
       \<and> ((\<forall>k < (length posts + 19) div 20. t k = 0) \<longrightarrow>
             ai_requests (snd (generateImageBriefsAndAltsBatch env provider posts)) = slices posts)
       \<and> plan (snd (generateImageBriefsAndAltsBatch env provider posts))
           = between (Pause 1000) (map Chunk (slices posts))
       \<and> length (slices posts) = (length posts + 19) div 20
       \<and> concat (slices posts) = posts
       \<and> (\<forall>k < length (slices posts).
             length (slices posts ! k)
               = (if Suc k < length (slices posts) then 20 else length posts - 20 * k)
             \<and> 0 < length (slices posts ! k) \<and> length (slices posts ! k) \<le> 20)
       \<and> last (progress_reports (snd (generateImageBriefsAndAltsBatch env provider posts)))
           = (length posts, length posts)"
proof -
  let ?m = "(length posts + 19) div 20"
  let ?run = "batch_loop env provider posts 0 []"
  have slice: "\<forall>k. 0 \<le> k \<and> k < ?m \<longrightarrow>
       batch_outcome env provider posts k = Inr (rs k)
       \<and> invocations (snd (retryableAIOperation
             (generateJsonText env (20 * k) (take 20 (drop (20 * k) posts))) 3 2000)) = t k + 1"
  proof (intro allI impI)
    fix k
    assume "0 \<le> k \<and> k < ?m"
    then have that: "k < ?m" by simp
    from assms that obtain reply where
      a: "t k < 3"
      and b: "\<forall>i < t k. \<exists>e. generateJsonText env (20 * k) (take 20 (drop (20 * k) posts)) i = Inl e
                              \<and> isRateLimitError e"
      and c: "generateJsonText env (20 * k) (take 20 (drop (20 * k) posts)) (t k) = Inr reply"
      and d: "batch_try env provider (Inr reply) = Inr (rs k)"
      by blast
    have "retryableAIOperation (generateJsonText env (20 * k) (take 20 (drop (20 * k) posts))) 3 2000
           = (Inr reply, backoff 2000 0 (t k) @ [Invoke (t k)])"
      using a b c by (rule slice_run)
    then show "batch_outcome env provider posts k = Inr (rs k)
       \<and> invocations (snd (retryableAIOperation
             (generateJsonText env (20 * k) (take 20 (drop (20 * k) posts))) 3 2000)) = t k + 1"
      using d by (simp add: batch_outcome_def invocations_append invocations_backoff)
  qed
  have outs: "\<forall>j. 0 \<le> j \<and> j < ?m \<longrightarrow> batch_outcome env provider posts j = Inr (rs j)"
    using slice by blast
  have ok: "fst ?run = Inr (concat (map rs [0..<?m]))"
    using batch_loop_resolves[of 0 posts env provider rs "[]"] outs by simp
  have f: "fst (generateImageBriefsAndAltsBatch env provider posts)
           = Inr (concat (map rs [0..<?m]))"
    using ok by (simp add: generateImageBriefsAndAltsBatch_def Let_def)
  have q0: "ai_requests (snd ?run)
           = concat (map (\<lambda>k. replicate (t k + 1) (take 20 (drop (20 * k) posts))) [0..<?m])"
    using batch_loop_requests[of 0 posts env provider rs "\<lambda>k. t k + 1" "[]"] slice by simp
  have q: "ai_requests (snd (generateImageBriefsAndAltsBatch env provider posts))
           = concat (map (\<lambda>k. replicate (t k + 1) (take 20 (drop (20 * k) posts))) [0..<?m])"
    using q0 by (simp add: generateImageBriefsAndAltsBatch_def Let_def)
  have ql: "length (ai_requests (snd (generateImageBriefsAndAltsBatch env provider posts)))
           = sum_list (map (\<lambda>k. t k + 1) [0..<?m])"
    unfolding q by (rule length_concat_replicate)
  have q1: "(\<forall>k < ?m. t k = 0) \<longrightarrow>
             ai_requests (snd (generateImageBriefsAndAltsBatch env provider posts)) = slices posts"
  proof
    assume z: "\<forall>k < ?m. t k = 0"
    then have "\<forall>k \<in> set [0..<?m]. t k + 1 = 1" by simp
    then have "concat (map (\<lambda>k. replicate (t k + 1) (take 20 (drop (20 * k) posts))) [0..<?m])
                 = map (\<lambda>k. take 20 (drop (20 * k) posts)) [0..<?m]"
      by (rule concat_replicate_once)
    then show "ai_requests (snd (generateImageBriefsAndAltsBatch env provider posts)) = slices posts"
      unfolding q slices_def .
  qed
  have p: "plan (snd (generateImageBriefsAndAltsBatch env provider posts))
           = between (Pause 1000) (map Chunk (slices posts))"
    using batch_loop_plan[OF ok]
    by (simp add: generateImageBriefsAndAltsBatch_def Let_def slices_from_0)
  have n: "length (slices posts) = ?m"
    by (simp add: slices_def)
  have c: "concat (slices posts) = posts"
    using concat_slices_from[of posts 0] by (simp add: slices_from_0)
  have l: "\<forall>k < length (slices posts).
             length (slices posts ! k)
               = (if Suc k < length (slices posts) then 20 else length posts - 20 * k)
             \<and> 0 < length (slices posts ! k) \<and> length (slices posts ! k) \<le> 20"
    using slices_lengths[of _ posts] unfolding n by blast
  have r: "last (progress_reports (snd (generateImageBriefsAndAltsBatch env provider posts)))
           = (length posts, length posts)"
  proof (cases "0 < length posts")
    case True
    then show ?thesis using batch_loop_progress[OF ok True]
      by (simp add: generateImageBriefsAndAltsBatch_def Let_def)
  next
    case False
    then have "snd ?run = []" by (subst batch_loop.simps) simp
    then show ?thesis using False
      by (simp add: generateImageBriefsAndAltsBatch_def Let_def)
  qed
  show ?thesis using f q ql q1 p n c l r by blast
qed

theorem batch_orchestration_witness:
  "fst (generateImageBriefsAndAltsBatch throttled_first_request ''openai'' [0..<25]) = Inr []
   \<and> ai_requests (snd (generateImageBriefsAndAltsBatch throttled_first_request ''openai'' [0..<25]))
       = [[0..<20], [0..<20], [20..<25]]
   \<and> plan (snd (generateImageBriefsAndAltsBatch throttled_first_request ''openai'' [0..<25]))
       = [Chunk [0..<20], Pause 1000, Chunk [20..<25]]
   \<and> last (progress_reports (snd (generateImageBriefsAndAltsBatch throttled_first_request ''openai'' [0..<25])))
       = (25, 25)"
proof -
  have h: "\<forall>k < (length [0..<25] + 19) div 20.
             throttles k < 3
             \<and> (\<forall>i < throttles k.
                   \<exists>e. generateJsonText throttled_first_request (20 * k)
                          (take 20 (drop (20 * k) [0..<25])) i = Inl e
                       \<and> isRateLimitError e)
             \<and> (\<exists>text. generateJsonText throttled_first_request (20 * k)
                          (take 20 (drop (20 * k) [0..<25])) (throttles k) = Inr text
                       \<and> batch_try throttled_first_request ''openai'' (Inr text) = Inr (no_results k))"
    by (simp add: throttles_def throttled_first_request_def batch_try_def no_results_def
        isRateLimitError_def)
  have e1: "concat (map no_results [0..<(length [0..<25::nat] + 19) div 20]) = []"
    by code_simp
  have e2: "concat (map (\<lambda>k. replicate (throttles k + 1) (take 20 (drop (20 * k) [0..<25::nat])))
                       [0..<(length [0..<25::nat] + 19) div 20])
            = [[0..<20], [0..<20], [20..<25]]"
    by code_simp
  have e3: "between (Pause 1000) (map Chunk (slices [0..<25::nat]))
           = [Chunk [0..<20], Pause 1000, Chunk [20..<25]]"
    by code_simp
  note t = batch_orchestration[OF h]
  have a: "fst (generateImageBriefsAndAltsBatch throttled_first_request ''openai'' [0..<25]) = Inr []"
    using t e1 by simp
  have b: "ai_requests (snd (generateImageBriefsAndAltsBatch throttled_first_request ''openai'' [0..<25]))
       = [[0..<20], [0..<20], [20..<25]]"
    using t e2 by simp
  have c: "plan (snd (generateImageBriefsAndAltsBatch throttled_first_request ''openai'' [0..<25]))
       = [Chunk [0..<20], Pause 1000, Chunk [20..<25]]"
    using t e3 by simp
  have d: "last (progress_reports (snd (generateImageBriefsAndAltsBatch throttled_first_request ''openai'' [0..<25])))
       = (25, 25)"
    using t by simp
  show ?thesis using a b c d by (intro conjI)
qed

section \<open>Properties of the placement code\<close>

subsection \<open>The heuristic\<close>

lemma heuristic_unfold:
  "insertPlaceholderHeuristically browser c ph =
     (if block_count browser c > 2 then placed_after browser c ph 1
      else if block_count browser c > 1 then placed_after browser c ph 0
      else if block_count browser c > 0 then placed_after browser c ph (block_count browser c - 1)
      else prepended browser c ph)"
  by (auto simp: insertPlaceholderHeuristically_def Let_def block_count_def placed_after_def
      prepended_def)

lemma sample_counts:
  "block_count sample_dom (html no_paragraph) = 0"
  "block_count sample_dom (html one_paragraph) = 1"
  "block_count sample_dom (html two_paragraphs) = 2"
  "block_count sample_dom (html five_paragraphs) = 5"
  "block_count sample_dom (html three_paragraphs) = 3"
  by code_simp+

lemma sample_placements:
  "prepended sample_dom (html no_paragraph) INSERT_IMAGE_HERE
     = INSERT_IMAGE_HERE @ newline @ ''Hello''"
  "placed_after sample_dom (html one_paragraph) INSERT_IMAGE_HERE 0
     = ''<p>Hello</p>'' @ newline @ INSERT_IMAGE_HERE @ newline"
  "placed_after sample_dom (html two_paragraphs) INSERT_IMAGE_HERE 0
     = ''<p>One</p>'' @ newline @ INSERT_IMAGE_HERE @ newline @ ''<p>Two</p>''"
  "placed_after sample_dom (html five_paragraphs) INSERT_IMAGE_HERE 1
     = ''<div><p>1</p><p>2</p>'' @ newline @ INSERT_IMAGE_HERE @ newline
       @ ''</div><p>3</p><p>4</p><p>5</p>''"
  by code_simp+

text \<open>
  Claim C6. With no paragraph block in the body the heuristic prepends the placeholder to
  the content; with exactly one block it inserts after the block at index 0; with exactly
  two blocks after index 0; with five blocks after index 1. The function reads nothing but
  its arguments and the DOM, so equal inputs give equal outputs.
\<close>

theorem heuristic_cases:
  "(block_count browser c = 0 \<longrightarrow>
      insertPlaceholderHeuristically browser c ph = prepended browser c ph)
   \<and> (block_count browser c = 1 \<longrightarrow>
      insertPlaceholderHeuristically browser c ph = placed_after browser c ph 0)
   \<and> (block_count browser c = 2 \<longrightarrow>
      insertPlaceholderHeuristically browser c ph = placed_after browser c ph 0)
   \<and> (block_count browser c = 5 \<longrightarrow>
      insertPlaceholderHeuristically browser c ph = placed_after browser c ph 1)
   \<and> (\<forall>c' ph'. c' = c \<and> ph' = ph \<longrightarrow>
      insertPlaceholderHeuristically browser c' ph' = insertPlaceholderHeuristically browser c ph)"
  by (simp add: heuristic_unfold)

theorem heuristic_cases_witness:
  "insertPlaceholderHeuristically sample_dom (html no_paragraph) INSERT_IMAGE_HERE
     = INSERT_IMAGE_HERE @ newline @ ''Hello''
   \<and> insertPlaceholderHeuristically sample_dom (html one_paragraph) INSERT_IMAGE_HERE
     = ''<p>Hello</p>'' @ newline @ INSERT_IMAGE_HERE @ newline
   \<and> insertPlaceholderHeuristically sample_dom (html two_paragraphs) INSERT_IMAGE_HERE
     = ''<p>One</p>'' @ newline @ INSERT_IMAGE_HERE @ newline @ ''<p>Two</p>''
   \<and> insertPlaceholderHeuristically sample_dom (html five_paragraphs) INSERT_IMAGE_HERE
     = ''<div><p>1</p><p>2</p>'' @ newline @ INSERT_IMAGE_HERE @ newline
       @ ''</div><p>3</p><p>4</p><p>5</p>''"
proof -
  have a0: "insertPlaceholderHeuristically sample_dom (html no_paragraph) INSERT_IMAGE_HERE
              = prepended sample_dom (html no_paragraph) INSERT_IMAGE_HERE"
    using heuristic_cases[of sample_dom "html no_paragraph" INSERT_IMAGE_HERE] sample_counts(1)
    by blast
  have a1: "insertPlaceholderHeuristically sample_dom (html one_paragraph) INSERT_IMAGE_HERE
              = placed_after sample_dom (html one_paragraph) INSERT_IMAGE_HERE 0"
    using heuristic_cases[of sample_dom "html one_paragraph" INSERT_IMAGE_HERE] sample_counts(2)
    by blast
  have a2: "insertPlaceholderHeuristically sample_dom (html two_paragraphs) INSERT_IMAGE_HERE
              = placed_after sample_dom (html two_paragraphs) INSERT_IMAGE_HERE 0"
    using heuristic_cases[of sample_dom "html two_paragraphs" INSERT_IMAGE_HERE] sample_counts(3)
    by blast
  have a5: "insertPlaceholderHeuristically sample_dom (html five_paragraphs) INSERT_IMAGE_HERE
              = placed_after sample_dom (html five_paragraphs) INSERT_IMAGE_HERE 1"
    using heuristic_cases[of sample_dom "html five_paragraphs" INSERT_IMAGE_HERE] sample_counts(4)
    by blast
  show ?thesis
    unfolding a0 a1 a2 a5 sample_placements by (intro conjI refl)
qed

text \<open>
  Claim C7 as stated sends a body with exactly one block to the prepend branch. The code
  does not: with one block \<open>targetIndex\<close> stays \<open>-1\<close> and the second branch inserts the
  placeholder after the last paragraph, which is that block.
\<close>

theorem one_block_not_prepended:
  "block_count sample_dom (html one_paragraph) = 1
   \<and> insertPlaceholderHeuristically sample_dom (html one_paragraph) INSERT_IMAGE_HERE
       = ''<p>Hello</p>'' @ newline @ INSERT_IMAGE_HERE @ newline
   \<and> prepended sample_dom (html one_paragraph) INSERT_IMAGE_HERE
       = INSERT_IMAGE_HERE @ newline @ ''<p>Hello</p>''
   \<and> insertPlaceholderHeuristically sample_dom (html one_paragraph) INSERT_IMAGE_HERE
       \<noteq> prepended sample_dom (html one_paragraph) INSERT_IMAGE_HERE"
  by code_simp

text \<open>
  Claim C7, amended. With more than two blocks the placeholder goes after the block at
  index 1; with exactly two, after index 0; with exactly one, after that block (index 0);
  only with no block at all is it prepended to the content.
\<close>

theorem heuristic_rule:
  "insertPlaceholderHeuristically browser c ph =
     (if block_count browser c > 2 then placed_after browser c ph 1
      else if block_count browser c > 1 then placed_after browser c ph 0
      else if block_count browser c = 1 then placed_after browser c ph 0
      else prepended browser c ph)"
  by (simp add: heuristic_unfold)

theorem heuristic_rule_witness:
  "insertPlaceholderHeuristically sample_dom (html one_paragraph) INSERT_IMAGE_HERE
     = placed_after sample_dom (html one_paragraph) INSERT_IMAGE_HERE 0"
  using heuristic_rule[of sample_dom "html one_paragraph" INSERT_IMAGE_HERE]
  by (simp only: sample_counts) simp

subsection \<open>The AI-assisted placement and its fallback\<close>

lemma parseInt_1: "parseInt ''1'' = 1"
  by (simp add: parseInt_def)

lemma placement_try_eligible:
  assumes "ai_eligible browser c"
  shows "placement_try browser generateText c (stripHtml browser title) =
     (case ai_reply browser generateText c title of
        Inl error \<Rightarrow> Inl error
      | Inr reply \<Rightarrow>
          Inr (case first_digits (js_trim reply) of
                 None \<Rightarrow> placed_after browser c INSERT_IMAGE_HERE 0
               | Some ds \<Rightarrow>
                   if 1 \<le> parseInt ds \<and> parseInt ds \<le> block_count browser c
                   then placed_after browser c INSERT_IMAGE_HERE (parseInt ds - 1)
                   else placed_after browser c INSERT_IMAGE_HERE 1))"
proof -
  let ?ps = "querySelectorAll_p (parseFromString browser c)"
  have n: "0 < length ?ps" "1 < length ?ps" "\<not> length (paragraphsToAnalyze ?ps) < 2"
    using assms by (auto simp: ai_eligible_def block_count_def)
  show ?thesis
  proof (cases "ai_reply browser generateText c title")
    case (Inl e)
    then show ?thesis using n
      by (simp add: placement_try_def ai_reply_def Let_def)
  next
    case (Inr reply)
    show ?thesis
    proof (cases "first_digits (js_trim reply)")
      case None
      then show ?thesis using n Inr
        by (simp add: placement_try_def ai_reply_def Let_def parseInt_1
            block_count_def placed_after_def INSERT_IMAGE_HERE_def)
    next
      case (Some ds)
      then show ?thesis using n Inr
        by (auto simp: placement_try_def ai_reply_def Let_def
            block_count_def placed_after_def INSERT_IMAGE_HERE_def)
    qed
  qed
qed

lemma placement_try_not_eligible:
  assumes "\<not> 2 \<le> length (paragraphsToAnalyze (querySelectorAll_p (parseFromString browser c)))"
  shows "placement_try browser generateText c t
           = Inr (insertPlaceholderHeuristically browser c INSERT_IMAGE_HERE)"
  using assms by (simp add: placement_try_def Let_def INSERT_IMAGE_HERE_def)

lemma getContent_unfold:
  "getContentWithImagePlaceholder browser generateText c title =
     (if \<not> ai_eligible browser c then insertPlaceholderHeuristically browser c INSERT_IMAGE_HERE
      else case ai_reply browser generateText c title of
             Inl error \<Rightarrow> insertPlaceholderHeuristically browser c INSERT_IMAGE_HERE
           | Inr reply \<Rightarrow>
               (case first_digits (js_trim reply) of
                  None \<Rightarrow> placed_after browser c INSERT_IMAGE_HERE 0
                | Some ds \<Rightarrow>
                    if 1 \<le> parseInt ds \<and> parseInt ds \<le> block_count browser c
                    then placed_after browser c INSERT_IMAGE_HERE (parseInt ds - 1)
                    else placed_after browser c INSERT_IMAGE_HERE 1))"
proof (cases "ai_eligible browser c")
  case True
  then have three: "\<not> block_count browser c < 3" by (simp add: ai_eligible_def)
  show ?thesis using True three
    by (simp add: getContentWithImagePlaceholder_def Let_def placement_try_eligible
        INSERT_IMAGE_HERE_def[symmetric] block_count_def[symmetric] split: sum.splits)
next
  case False
  show ?thesis
  proof (cases "block_count browser c < 3")
    case True
    then show ?thesis using False
      by (simp add: getContentWithImagePlaceholder_def Let_def
        INSERT_IMAGE_HERE_def[symmetric] block_count_def[symmetric])
  next
    case ge: False
    then have "\<not> 2 \<le> length (paragraphsToAnalyze (querySelectorAll_p (parseFromString browser c)))"
      using False by (simp add: ai_eligible_def)
    then show ?thesis using False ge
      by (simp add: getContentWithImagePlaceholder_def Let_def placement_try_not_eligible
        INSERT_IMAGE_HERE_def[symmetric] block_count_def[symmetric])
  qed
qed

lemma heuristic_shape:
  "(block_count browser c = 0 \<and> insertPlaceholderHeuristically browser c ph = prepended browser c ph)
   \<or> (\<exists>k < block_count browser c. insertPlaceholderHeuristically browser c ph = placed_after browser c ph k)"
  by (auto simp: heuristic_unfold)

lemma sample_three:
  "ai_eligible sample_dom (html three_paragraphs)"
  "block_count sample_dom (html three_paragraphs) = 3"
  "ai_reply sample_dom replies_three (html three_paragraphs) ''Title'' = Inr '' 3''"
  "first_digits (js_trim '' 3'') = Some ''3''"
  "parseInt ''3'' = 3"
  "placed_after sample_dom (html three_paragraphs) INSERT_IMAGE_HERE 2
     = html (three_paragraphs @ marker)"
  by code_simp+

text \<open>
  Claim C9 as stated sends every invalid answer of the text model to the heuristic. The
  code does not when the answer holds no digit: the missing number defaults to \<open>1\<close>, and
  the placeholder goes after the first paragraph, where the heuristic (three paragraphs or
  more) would have put it after the second.
\<close>

theorem digitless_reply_not_heuristic:
  "ai_eligible sample_dom (html three_paragraphs)
   \<and> ai_reply sample_dom replies_none (html three_paragraphs) ''Title'' = Inr ''none''
   \<and> getContentWithImagePlaceholder sample_dom replies_none (html three_paragraphs) ''Title''
       = html (take 1 three_paragraphs @ marker @ drop 1 three_paragraphs)
   \<and> insertPlaceholderHeuristically sample_dom (html three_paragraphs) INSERT_IMAGE_HERE
       = html (take 2 three_paragraphs @ marker @ drop 2 three_paragraphs)
   \<and> getContentWithImagePlaceholder sample_dom replies_none (html three_paragraphs) ''Title''
       \<noteq> insertPlaceholderHeuristically sample_dom (html three_paragraphs) INSERT_IMAGE_HERE"
  by code_simp

text \<open>
  Claim C9, amended. \<open>getContentWithImagePlaceholder\<close> never rejects: for every content,
  title and behaviour of the text model it returns content with the placeholder inserted,
  after one of the paragraphs or, when there is none, prepended. The heuristic decides
  when there are fewer than three paragraphs, fewer than two significant ones among the
  first five, or when the text model fails after its retries. Otherwise the first run of
  digits in the answer is the paragraph number: in range, the placeholder goes after that
  paragraph; out of range, after the second paragraph, which is also where the heuristic
  puts it; and an answer without digits counts as paragraph 1.
\<close>

theorem placement_never_rejects:
  "getContentWithImagePlaceholder browser generateText c title =
     (if \<not> ai_eligible browser c then insertPlaceholderHeuristically browser c INSERT_IMAGE_HERE
      else case ai_reply browser generateText c title of
             Inl error \<Rightarrow> insertPlaceholderHeuristically browser c INSERT_IMAGE_HERE
           | Inr reply \<Rightarrow>
               (case first_digits (js_trim reply) of
                  None \<Rightarrow> placed_after browser c INSERT_IMAGE_HERE 0
                | Some ds \<Rightarrow>
                    if 1 \<le> parseInt ds \<and> parseInt ds \<le> block_count browser c
                    then placed_after browser c INSERT_IMAGE_HERE (parseInt ds - 1)
                    else placed_after browser c INSERT_IMAGE_HERE 1))
   \<and> (3 \<le> block_count browser c \<longrightarrow>
        placed_after browser c INSERT_IMAGE_HERE 1
          = insertPlaceholderHeuristically browser c INSERT_IMAGE_HERE)
   \<and> ((block_count browser c = 0
         \<and> getContentWithImagePlaceholder browser generateText c title
             = prepended browser c INSERT_IMAGE_HERE)
        \<or> (\<exists>k < block_count browser c.
              getContentWithImagePlaceholder browser generateText c title
                = placed_after browser c INSERT_IMAGE_HERE k))"
proof -
  let ?result = "getContentWithImagePlaceholder browser generateText c title"
  let ?heuristic = "insertPlaceholderHeuristically browser c INSERT_IMAGE_HERE"
  have same: "3 \<le> block_count browser c \<longrightarrow> placed_after browser c INSERT_IMAGE_HERE 1 = ?heuristic"
    by (simp add: heuristic_unfold)
  have shape: "(block_count browser c = 0 \<and> ?result = prepended browser c INSERT_IMAGE_HERE)
        \<or> (\<exists>k < block_count browser c. ?result = placed_after browser c INSERT_IMAGE_HERE k)"
  proof (cases "?result = ?heuristic")
    case True
    then show ?thesis using heuristic_shape[of browser c INSERT_IMAGE_HERE] by simp
  next
    case False
    then have el: "ai_eligible browser c" by (simp add: getContent_unfold split: if_splits)
    then have n: "0 < block_count browser c" "1 < block_count browser c"
      by (auto simp: ai_eligible_def)
    from False el obtain reply where reply: "ai_reply browser generateText c title = Inr reply"
      by (cases "ai_reply browser generateText c title") (auto simp: getContent_unfold)
    show ?thesis
    proof (cases "first_digits (js_trim reply)")
      case None
      then have "?result = placed_after browser c INSERT_IMAGE_HERE 0"
        using el reply by (simp add: getContent_unfold)
      then show ?thesis using n by blast
    next
      case (Some ds)
      have r: "?result =
          (if 1 \<le> parseInt ds \<and> parseInt ds \<le> block_count browser c
           then placed_after browser c INSERT_IMAGE_HERE (parseInt ds - 1)
           else placed_after browser c INSERT_IMAGE_HERE 1)"
        by (simp only: getContent_unfold el reply Some not_True_eq_False if_False
            sum.case option.case)
      show ?thesis
      proof (cases "1 \<le> parseInt ds \<and> parseInt ds \<le> block_count browser c")
        case True
        then have "?result = placed_after browser c INSERT_IMAGE_HERE (parseInt ds - 1)"
          unfolding r by (rule if_P)
        moreover have "parseInt ds - 1 < block_count browser c" using True by arith
        ultimately show ?thesis by blast
      next
        case False
        then have "?result = placed_after browser c INSERT_IMAGE_HERE 1"
          unfolding r by (rule if_not_P)
        then show ?thesis using n by blast
      qed
    qed
  qed
  show ?thesis using getContent_unfold[of browser generateText c title] same shape by blast
qed

theorem placement_never_rejects_witness:
  "getContentWithImagePlaceholder sample_dom replies_three (html three_paragraphs) ''Title''
     = html (three_paragraphs @ marker)"
proof -
  have "getContentWithImagePlaceholder sample_dom replies_three (html three_paragraphs) ''Title''
     = placed_after sample_dom (html three_paragraphs) INSERT_IMAGE_HERE 2"
    using placement_never_rejects[of sample_dom replies_three "html three_paragraphs" "''Title''",
        THEN conjunct1]
    by (simp add: sample_three)
  then show ?thesis by (simp only: sample_three)
qed

section \<open>Properties of the job processor\<close>

lemma apply_transition:
  "apply_update (transition s m) p = p\<lparr>status := Some s, statusMessage := Some m\<rparr>"
  by (simp add: apply_update_def transition_def)

lemma insert_steps_missing:
  assumes "payload job = None \<or> (\<exists>pl. payload job = Some pl \<and> imageUrl pl = [])"
  shows "insert_steps env currentPost job = (Inl (Error ''No image URL for insertion.''), [])"
  using assms by (auto simp: insert_steps_def Let_def)

text \<open>
  Claim C8. For every job whose action is \<open>insert\<close> and whose payload is absent or has an
  empty \<open>imageUrl\<close>, \<open>processJob\<close> publishes exactly one update, the transition to
  \<open>error\<close> with a message naming the cause (\<open>No image URL for insertion.\<close>, or that the
  post is not in the current state), makes no service call and publishes no other
  status; applied to the posts, the update changes the posts with the job's id and no
  other.
\<close>

theorem insert_without_image_url:
  assumes "action job = Insert"
    and "payload job = None \<or> (\<exists>pl. payload job = Some pl \<and> imageUrl pl = [])"
  shows "processJob env current job =
           [Published (post_id (post job))
              (transition Status_error
                 (case find (\<lambda>p. post_id p = post_id (post job)) current of
                    Some currentPost \<Rightarrow> ''No image URL for insertion.''
                  | None \<Rightarrow> ''Post '' @ show_nat (post_id (post job))
                            @ '' not found in current state.''))]
       \<and> service_calls (processJob env current job) = []
       \<and> (\<forall>posts. publish (processJob env current job) posts =
             map (\<lambda>p. if post_id p = post_id (post job)
                      then p\<lparr>status := Some Status_error,
                             statusMessage :=
                               Some (case find (\<lambda>p. post_id p = post_id (post job)) current of
                                       Some currentPost \<Rightarrow> ''No image URL for insertion.''
                                     | None \<Rightarrow> ''Post '' @ show_nat (post_id (post job))
                                               @ '' not found in current state.'')\<rparr>
                      else p) posts)"
proof (cases "find (\<lambda>p. post_id p = post_id (post job)) current")
  case None
  then have "processJob env current job =
           [Published (post_id (post job))
              (transition Status_error
                 (''Post '' @ show_nat (post_id (post job)) @ '' not found in current state.''))]"
    by (simp add: processJob_def job_steps_def)
  then show ?thesis using None
    by (simp add: updatePostState_def apply_transition)
next
  case (Some currentPost)
  then have "processJob env current job =
           [Published (post_id (post job))
              (transition Status_error ''No image URL for insertion.'')]"
    using assms by (simp add: processJob_def job_steps_def insert_steps_missing)
  then show ?thesis using Some
    by (simp add: updatePostState_def apply_transition)
qed

theorem insert_without_image_url_witness:
  "processJob offline [sample_post 6, sample_post 7] insert_without_url
     = [Published 7 (transition Status_error ''No image URL for insertion.'')]
   \<and> publish (processJob offline [sample_post 6, sample_post 7] insert_without_url)
        [sample_post 6, sample_post 7]
     = [sample_post 6,
        (sample_post 7)\<lparr>status := Some Status_error,
                         statusMessage := Some ''No image URL for insertion.''\<rparr>]"
proof -
  have h1: "action insert_without_url = Insert" by (simp add: insert_without_url_def)
  have h2: "payload insert_without_url = None
            \<or> (\<exists>pl. payload insert_without_url = Some pl \<and> imageUrl pl = [])"
    by (simp add: insert_without_url_def)
  have i: "post_id (post insert_without_url) = 7" "post_id (sample_post 6) = 6"
    "post_id (sample_post 7) = 7"
    by (simp_all add: insert_without_url_def sample_post_def)
  have f: "find (\<lambda>p. post_id p = 7) [sample_post 6, sample_post 7] = Some (sample_post 7)"
    by (simp add: i)
  note t = insert_without_image_url[OF h1 h2, of offline "[sample_post 6, sample_post 7]",
      unfolded i(1), unfolded f option.case]
  from t have a: "processJob offline [sample_post 6, sample_post 7] insert_without_url
     = [Published 7 (transition Status_error ''No image URL for insertion.'')]"
    by (rule conjunct1)
  from t have "publish (processJob offline [sample_post 6, sample_post 7] insert_without_url)
        [sample_post 6, sample_post 7]
     = map (\<lambda>p. if post_id p = 7
                  then p\<lparr>status := Some Status_error,
                         statusMessage := Some ''No image URL for insertion.''\<rparr>
                  else p) [sample_post 6, sample_post 7]"
    by blast
  then have b: "publish (processJob offline [sample_post 6, sample_post 7] insert_without_url)
        [sample_post 6, sample_post 7]
     = [sample_post 6,
        (sample_post 7)\<lparr>status := Some Status_error,
                         statusMessage := Some ''No image URL for insertion.''\<rparr>]"
    by (simp add: i)
  show ?thesis using a b by (rule conjI)
qed

end
